theory Spec2Isabelle
  imports Complex_Main "HOL-Library.Sublist" "HOL-Library.Monad_Syntax"
begin

section \<open>JavaScript values\<close>

text \<open>
  The frontend works on values decoded from JSON. A value is one of the JSON kinds, or
  \<open>JUndefined\<close>, which is what reading a missing property gives. A number is a real,
  standing for the double of that value; NaN and the infinities are not among the values,
  and an operation that gives one of them gives a result that is not followed (see
  \<open>jsnum\<close> below). A \<open>char\<close> stands for one UTF-16 code unit below 256. The list of a
  \<open>JObj\<close> holds the object's own properties in the order in which \<open>Object.keys\<close>
  enumerates them; the first binding of a key is its value.
\<close>

datatype json =
    JUndefined
  | JNull
  | JBool bool
  | JNum real
  | JStr string
  | JArr "json list"
  | JObj "(string \<times> json) list"

text \<open>
  The result of arithmetic: a real number, or \<open>Other\<close>, a result that this development
  does not follow (a value that is not finite, or one that comes from coercing an operand
  that is not a number, a boolean or \<open>null\<close>).
\<close>

datatype jsnum = Num real | Other

text \<open>The two \<open>TypeError\<close>s that the code below can raise.\<close>

datatype type_error =
    ReadOfNullish
  | NoPrimitive

text \<open>
  What the language leaves to the engine, or what this development takes from it: the
  text \<open>Number.prototype.toString\<close> prints for a number; the message text of a
  \<open>TypeError\<close>, for reading a property of \<open>undefined\<close> or \<open>null\<close> and for a value that
  does not convert to a primitive; and the rounding of arithmetic, which takes the exact
  result of an operation on two doubles to the double that the operation gives, or to
  \<open>Other\<close> when it gives an infinity.
\<close>

record host =
  number_to_string :: "real \<Rightarrow> string"
  type_error_message :: "type_error \<Rightarrow> string"
  round_double :: "real \<Rightarrow> jsnum"

text \<open>Truthiness, as \<open>!x\<close>, \<open>x || y\<close> and \<open>x ? a : b\<close> test it.\<close>

fun truthy :: "json \<Rightarrow> bool" where
  "truthy JUndefined = False"
| "truthy JNull = False"
| "truthy (JBool b) = b"
| "truthy (JNum x) = (x \<noteq> 0)"
| "truthy (JStr s) = (s \<noteq> [])"
| "truthy (JArr xs) = True"
| "truthy (JObj kvs) = True"

text \<open>\<open>Array.isArray\<close>.\<close>

fun isArray :: "json \<Rightarrow> bool" where
  "isArray (JArr xs) = True"
| "isArray v = False"

text \<open>Decimal digits of a natural number, as an array index is printed.\<close>

definition digit_char :: "nat \<Rightarrow> char" where
  "digit_char d = ''0123456789'' ! d"

fun decimal :: "nat \<Rightarrow> string" where
  "decimal n = (if n < 10 then [digit_char n] else decimal (n div 10) @ [digit_char (n mod 10)])"

declare decimal.simps [simp del]

text \<open>The index keys \<open>"0"\<close>, \<open>"1"\<close>, ... of an array or a string of length \<open>n\<close>.\<close>

definition index_keys :: "nat \<Rightarrow> string list" where
  "index_keys n = map decimal [0..<n]"

text \<open>Keys of a property list, each once, in order of first occurrence.\<close>

fun first_keys :: "(string \<times> json) list \<Rightarrow> string list" where
  "first_keys [] = []"
| "first_keys ((k, v) # kvs) = k # filter (\<lambda>k'. k' \<noteq> k) (first_keys kvs)"

text \<open>
  \<open>Object.keys(v)\<close>: \<open>None\<close> is the \<open>TypeError\<close> thrown for \<open>undefined\<close> and
  \<open>null\<close>.
\<close>

fun object_keys :: "json \<Rightarrow> string list option" where
  "object_keys JUndefined = None"
| "object_keys JNull = None"
| "object_keys (JBool b) = Some []"
| "object_keys (JNum x) = Some []"
| "object_keys (JStr s) = Some (index_keys (length s))"
| "object_keys (JArr xs) = Some (index_keys (length xs))"
| "object_keys (JObj kvs) = Some (first_keys kvs)"

text \<open>
  Reading a property, \<open>v.k\<close> or \<open>v[k]\<close>: \<open>None\<close> is the \<open>TypeError\<close> thrown when
  \<open>v\<close> is \<open>undefined\<close> or \<open>null\<close>; a missing property reads as \<open>undefined\<close>. Inherited
  methods are not modelled: no property name read by the code below names one.
\<close>

definition lookup_or_undefined :: "(string \<times> json) list \<Rightarrow> string \<Rightarrow> json" where
  "lookup_or_undefined kvs k = (case map_of kvs k of Some v \<Rightarrow> v | None \<Rightarrow> JUndefined)"

fun js_get :: "json \<Rightarrow> string \<Rightarrow> json option" where
  "js_get JUndefined k = None"
| "js_get JNull k = None"
| "js_get (JBool b) k = Some JUndefined"
| "js_get (JNum x) k = Some JUndefined"
| "js_get (JStr s) k =
     Some (if k = ''length'' then JNum (real (length s))
           else lookup_or_undefined (zip (index_keys (length s)) (map (\<lambda>c. JStr [c]) s)) k)"
| "js_get (JArr xs) k =
     Some (if k = ''length'' then JNum (real (length xs))
           else lookup_or_undefined (zip (index_keys (length xs)) xs) k)"
| "js_get (JObj kvs) k = Some (lookup_or_undefined kvs k)"

text \<open>Joining strings with a separator, as \<open>Array.prototype.join\<close> does.\<close>

fun join :: "string \<Rightarrow> string list \<Rightarrow> string" where
  "join sep [] = []"
| "join sep [s] = s"
| "join sep (s # t # ss) = s @ sep @ join sep (t # ss)"

text \<open>
  \<open>ToString\<close>, as a template literal, \<open>new Error(x)\<close> and a computed property key apply
  it. An object prints as \<open>[object Object]\<close>; when it has an own property \<open>toString\<close>
  (never callable in decoded JSON) the conversion throws a \<open>TypeError\<close>, which is
  \<open>None\<close>. An array prints its elements joined by commas, \<open>undefined\<close> and \<open>null\<close>
  elements as the empty string.
\<close>

fun js_to_string :: "host \<Rightarrow> json \<Rightarrow> string option" where
  "js_to_string h JUndefined = Some ''undefined''"
| "js_to_string h JNull = Some ''null''"
| "js_to_string h (JBool b) = Some (if b then ''true'' else ''false'')"
| "js_to_string h (JNum x) = Some (number_to_string h x)"
| "js_to_string h (JStr s) = Some s"
| "js_to_string h (JArr xs) =
     map_option (join '','')
       (those (map (\<lambda>v. if v = JUndefined \<or> v = JNull then Some [] else js_to_string h v) xs))"
| "js_to_string h (JObj kvs) =
     (if ''toString'' \<in> set (map fst kvs) then None else Some ''[object Object]'')"

text \<open>
  \<open>ToNumber\<close>: \<open>null\<close> is 0, \<open>true\<close> is 1 and \<open>false\<close> is 0. \<open>None\<close> is the
  \<open>TypeError\<close> of an object or array that does not convert to a primitive, which is the
  case exactly when \<open>ToString\<close> throws on it.
\<close>

fun to_number :: "host \<Rightarrow> json \<Rightarrow> jsnum option" where
  "to_number h (JNum x) = Some (Num x)"
| "to_number h JNull = Some (Num 0)"
| "to_number h (JBool b) = Some (Num (if b then 1 else 0))"
| "to_number h v = (if js_to_string h v = None then None else Some Other)"

text \<open>
  Arithmetic on doubles: the exact result, rounded by the host. A quotient by zero is an
  infinity or NaN.
\<close>

fun num_times :: "host \<Rightarrow> jsnum \<Rightarrow> jsnum \<Rightarrow> jsnum" where
  "num_times h (Num x) (Num y) = round_double h (x * y)"
| "num_times h a b = Other"

fun num_divide :: "host \<Rightarrow> jsnum \<Rightarrow> jsnum \<Rightarrow> jsnum" where
  "num_divide h (Num x) (Num y) = (if y = 0 then Other else round_double h (x / y))"
| "num_divide h a b = Other"

fun num_plus :: "host \<Rightarrow> jsnum \<Rightarrow> jsnum \<Rightarrow> jsnum" where
  "num_plus h (Num x) (Num y) = round_double h (x + y)"
| "num_plus h a b = Other"

text \<open>The operators \<open>a * b\<close> and \<open>a / b\<close> on values.\<close>

definition js_times :: "host \<Rightarrow> json \<Rightarrow> json \<Rightarrow> jsnum option" where
  "js_times h a b = do { x \<leftarrow> to_number h a; y \<leftarrow> to_number h b; Some (num_times h x y) }"

definition js_divide :: "host \<Rightarrow> json \<Rightarrow> json \<Rightarrow> jsnum option" where
  "js_divide h a b = do { x \<leftarrow> to_number h a; y \<leftarrow> to_number h b; Some (num_divide h x y) }"

text \<open>
  \<open>acc + v\<close> for a running numeric total \<open>acc\<close>: with a string the operator
  concatenates, which is not followed.
\<close>

definition js_plus :: "host \<Rightarrow> jsnum \<Rightarrow> json \<Rightarrow> jsnum option" where
  "js_plus h acc v =
     (case v of
        JStr s \<Rightarrow> Some Other
      | _ \<Rightarrow> map_option (num_plus h acc) (to_number h v))"

section \<open>Parsing the backend response (\<open>parseBackend\<close>)\<close>

text \<open>
  The parsed report: per page the items copied from the response's annotations, and the
  counters derived from them. Fields that the code copies from the response hold the
  response's value as it is.
\<close>

record item =
  item_id :: json
  category :: json
  bbox :: json
  confidence :: json
  area :: jsnum

record page =
  index :: nat
  pageKey :: string
  pageSize :: json
  items :: "item list"

record counters =
  qr :: nat
  signatures :: nat
  stamps :: nat

record parsed =
  fileName :: json
  pages :: "page list"
  counters :: counters
  processingTime :: json

text \<open>
  One annotation becomes one item. Every property read can throw, and so can the product
  for the area; the \<open>try\<close> around the whole function turns each into the result
  \<open>null\<close>, here \<open>None\<close>.
\<close>

definition parse_item :: "host \<Rightarrow> json \<Rightarrow> item option" where
  "parse_item h ann = do {
     i \<leftarrow> js_get ann ''id'';
     c \<leftarrow> js_get ann ''category'';
     b \<leftarrow> js_get ann ''bbox'';
     cf \<leftarrow> js_get ann ''confidence'';
     w \<leftarrow> js_get b ''width'';
     ht \<leftarrow> js_get b ''height'';
     a \<leftarrow> js_times h w ht;
     Some \<lparr>item_id = i, category = c, bbox = b, confidence = cf, area = a\<rparr>
   }"

text \<open>
  \<open>(page.annotations || []).map(...)\<close>: a falsy value gives no items, an array gives one
  item per element, any other truthy value has no \<open>map\<close> method and the call throws.
\<close>

definition parse_items :: "host \<Rightarrow> json \<Rightarrow> item list option" where
  "parse_items h pg = do {
     anns \<leftarrow> js_get pg ''annotations'';
     if truthy anns
     then (case anns of JArr xs \<Rightarrow> those (map (parse_item h) xs) | _ \<Rightarrow> None)
     else Some []
   }"

definition parse_page :: "host \<Rightarrow> nat \<times> json \<Rightarrow> page option" where
  "parse_page h = (\<lambda>(idx, pg). do {
     its \<leftarrow> parse_items h pg;
     n \<leftarrow> js_get pg ''page_number'';
     key \<leftarrow> js_to_string h n;
     sz \<leftarrow> js_get pg ''page_size'';
     Some \<lparr>index = idx, pageKey = ''page_'' @ key, pageSize = sz, items = its\<rparr>
   })"

text \<open>The body of \<open>forEach\<close> in the counters' \<open>reduce\<close>.\<close>

definition count_item :: "counters \<Rightarrow> item \<Rightarrow> counters" where
  "count_item acc it =
     (if category it = JStr ''qr'' then acc\<lparr>qr := qr acc + 1\<rparr>
      else if category it = JStr ''signature'' then acc\<lparr>signatures := signatures acc + 1\<rparr>
      else if category it = JStr ''stamp'' then acc\<lparr>stamps := stamps acc + 1\<rparr>
      else acc)"

definition count_page :: "counters \<Rightarrow> page \<Rightarrow> counters" where
  "count_page acc p = foldl count_item acc (items p)"

definition count_pages :: "page list \<Rightarrow> counters" where
  "count_pages ps = foldl count_page \<lparr>qr = 0, signatures = 0, stamps = 0\<rparr> ps"

definition parseBackend :: "host \<Rightarrow> json \<Rightarrow> parsed option" where
  "parseBackend h json = do {
     name \<leftarrow> js_get json ''document_name'';
     pgs \<leftarrow> js_get json ''pages'';
     if \<not> truthy name \<or> \<not> truthy pgs \<or> \<not> isArray pgs then None
     else (case pgs of
        JArr ps \<Rightarrow> do {
          parsed_pages \<leftarrow> those (map (parse_page h) (enumerate 0 ps));
          time \<leftarrow> js_get json ''processing_time'';
          Some \<lparr>fileName = name, pages = parsed_pages,
                counters = count_pages parsed_pages, processingTime = time\<rparr>
        }
      | _ \<Rightarrow> None)
   }"

section \<open>Analysing several documents (\<open>App.analyzeMultipleDocuments\<close>)\<close>

record pdf_file =
  name :: string
  mime :: string

datatype status = Processing | Completed | Error

record document =
  doc_file :: pdf_file
  status :: status
  results :: "parsed option"
  doc_error :: "string option"

text \<open>
  What one \<open>fetch\<close> of the detect endpoint gives: a rejected promise with the message of
  its error, or a response with its HTTP status and the outcome of \<open>res.json()\<close>, which
  is the decoded body or the message of the error that decoding raises.
\<close>

datatype fetch_result =
    Rejected string
  | Response nat "string + json"

text \<open>\<open>res.ok\<close>: the status is in the range 200 to 299.\<close>

definition response_ok :: "nat \<Rightarrow> bool" where
  "response_ok st = (200 \<le> st \<and> st \<le> 299)"

text \<open>
  The message of the \<open>Error\<close> thrown for a response that is not ok:
  \<open>errorData.detail || `Backend error: ${res.status}`\<close>, where \<open>errorData\<close> is the decoded
  body, or \<open>{}\<close> when decoding fails. Reading \<open>detail\<close> of a \<open>null\<close> body and printing a
  value that does not convert both raise a \<open>TypeError\<close>, whose message is then the one
  recorded.
\<close>

definition backend_error_message :: "host \<Rightarrow> nat \<Rightarrow> string + json \<Rightarrow> string" where
  "backend_error_message h st body =
     (let errorData = (case body of Inr j \<Rightarrow> j | Inl m \<Rightarrow> JObj []) in
      case js_get errorData ''detail'' of
        None \<Rightarrow> type_error_message h ReadOfNullish
      | Some detail \<Rightarrow>
          (case js_to_string h
                  (if truthy detail then detail else JStr (''Backend error: '' @ decimal st)) of
             None \<Rightarrow> type_error_message h NoPrimitive
           | Some m \<Rightarrow> m))"

text \<open>
  The body of the \<open>try\<close> for one document: the progress value last set, and either the
  message of what was thrown or the parsed report.
\<close>

definition try_document :: "host \<Rightarrow> fetch_result \<Rightarrow> nat \<times> (string + parsed)" where
  "try_document h r =
     (case r of
        Rejected m \<Rightarrow> (30, Inl m)
      | Response st body \<Rightarrow>
          if \<not> response_ok st then (70, Inl (backend_error_message h st body))
          else (case body of
                  Inl m \<Rightarrow> (70, Inl m)
                | Inr json \<Rightarrow>
                    (case parseBackend h json of
                       None \<Rightarrow> (70, Inl ''Invalid response format'')
                     | Some p \<Rightarrow> (100, Inr p))))"

datatype view = Upload | Results | Viewer

record app =
  files :: "pdf_file list"
  documents :: "document list"
  view :: view
  isUploading :: bool
  app_error :: "string option"
  progress :: "nat \<rightharpoonup> nat"

text \<open>\<open>prev.map((doc, idx) => idx === i ? f(doc) : doc)\<close>.\<close>

definition update_at :: "nat \<Rightarrow> (document \<Rightarrow> document) \<Rightarrow> document list \<Rightarrow> document list" where
  "update_at i f docs = map (\<lambda>(idx, doc). if idx = i then f doc else doc) (enumerate 0 docs)"

text \<open>
  One turn of the \<open>for\<close> loop. The \<open>i\<close>-th request's outcome is \<open>net i\<close>. The state
  updates are functional (\<open>prev => ...\<close>), so they apply in the order in which they are
  issued.
\<close>

definition analyze_step :: "host \<Rightarrow> (nat \<Rightarrow> fetch_result) \<Rightarrow> nat \<Rightarrow> app \<Rightarrow> app" where
  "analyze_step h net i st =
     (case try_document h (net i) of
        (pr, Inr p) \<Rightarrow>
          st\<lparr>progress := (progress st)(i \<mapsto> pr),
             documents := update_at i (\<lambda>doc. doc\<lparr>status := Completed, results := Some p\<rparr>)
                            (documents st)\<rparr>
      | (pr, Inl m) \<Rightarrow>
          st\<lparr>progress := (progress st)(i \<mapsto> pr),
             documents := update_at i (\<lambda>doc. doc\<lparr>status := Error, doc_error := Some m\<rparr>)
                            (documents st)\<rparr>)"

definition initialDocs :: "pdf_file list \<Rightarrow> document list" where
  "initialDocs fs =
     map (\<lambda>f. \<lparr>doc_file = f, status = Processing, results = None, doc_error = None\<rparr>) fs"

definition analyzeMultipleDocuments :: "host \<Rightarrow> (nat \<Rightarrow> fetch_result) \<Rightarrow> app \<Rightarrow> app" where
  "analyzeMultipleDocuments h net st =
     (if files st = [] then st
      else
        let st1 = st\<lparr>isUploading := True, app_error := None,
                     documents := initialDocs (files st), view := Results\<rparr>;
            st2 = fold (analyze_step h net) [0..<length (files st)] st1
        in st2\<lparr>isUploading := False\<rparr>)"

subsection \<open>User events during the run\<close>








section \<open>The list of documents (\<open>DocumentsList\<close>)\<close>

record total_stats = counters +
  total_pages :: nat
  total_time :: jsnum

text \<open>The body of the \<open>reduce\<close> that computes \<open>totalStats\<close>; \<open>None\<close> when it throws.\<close>

definition add_document :: "host \<Rightarrow> document \<Rightarrow> total_stats \<Rightarrow> total_stats option" where
  "add_document h doc acc =
     (case results doc of
        None \<Rightarrow> Some acc
      | Some r \<Rightarrow> do {
          t \<leftarrow> js_plus h (total_time acc)
                 (if truthy (processingTime r) then processingTime r else JNum 0);
          Some (acc\<lparr>qr := qr acc + qr (counters r),
                    signatures := signatures acc + signatures (counters r),
                    stamps := stamps acc + stamps (counters r),
                    total_pages := total_pages acc + length (pages r),
                    total_time := t\<rparr>)
        })"

fun total_from :: "host \<Rightarrow> total_stats \<Rightarrow> document list \<Rightarrow> total_stats option" where
  "total_from h acc [] = Some acc"
| "total_from h acc (doc # docs) =
     (case add_document h doc acc of None \<Rightarrow> None | Some acc' \<Rightarrow> total_from h acc' docs)"

definition totalStats :: "host \<Rightarrow> document list \<Rightarrow> total_stats option" where
  "totalStats h docs =
     total_from h \<lparr>qr = 0, signatures = 0, stamps = 0, total_pages = 0, total_time = Num 0\<rparr> docs"



section \<open>Converting the old format (\<open>convertOldFormat\<close>)\<close>

text \<open>
  \<open>parseInt(s, 10)\<close>: leading white space is skipped, a sign is read, then the longest
  run of decimal digits; with no digit the result is NaN, here \<open>None\<close>. The value is
  idealised as an integer.
\<close>

definition is_space :: "char \<Rightarrow> bool" where
  "is_space c = (of_char c \<in> {9, 10, 11, 12, 13, 32, 160 :: nat})"

definition is_digit :: "char \<Rightarrow> bool" where
  "is_digit c = (48 \<le> (of_char c :: nat) \<and> (of_char c :: nat) \<le> 57)"

definition digits_value :: "string \<Rightarrow> nat" where
  "digits_value ds = foldl (\<lambda>a c. 10 * a + (of_char c - 48)) 0 ds"

definition parseInt10 :: "string \<Rightarrow> int option" where
  "parseInt10 s =
     (let t = dropWhile is_space s;
          (sgn, u) = (case t of
                        c # r \<Rightarrow> if c = CHR ''-'' then (- 1, r)
                                 else if c = CHR ''+'' then (1, r) else (1, t)
                      | [] \<Rightarrow> (1 :: int, t));
          ds = takeWhile is_digit u
      in if ds = [] then None else Some (sgn * int (digits_value ds)))"

text \<open>\<open>s.replace(pat, rep)\<close> for a string pattern: the first occurrence is replaced.\<close>

fun replace_first :: "string \<Rightarrow> string \<Rightarrow> string \<Rightarrow> string" where
  "replace_first pat rep [] = (if pat = [] then rep else [])"
| "replace_first pat rep (c # cs) =
     (if prefix pat (c # cs) then rep @ drop (length pat) (c # cs)
      else c # replace_first pat rep cs)"

definition page_key_number :: "string \<Rightarrow> int option" where
  "page_key_number k = parseInt10 (replace_first ''page_'' [] k)"

text \<open>
  The comparator of the sort is positive: \<open>a\<close> goes after \<open>b\<close>. A difference that is
  NaN counts as zero.
\<close>

definition key_after :: "string \<Rightarrow> string \<Rightarrow> bool" where
  "key_after a b =
     (case (page_key_number a, page_key_number b) of
        (Some x, Some y) \<Rightarrow> x - y > 0
      | _ \<Rightarrow> False)"

text \<open>
  \<open>Array.prototype.sort\<close> with this comparator, as a stable insertion sort. When every key
  carries a number the comparator is consistent and the order is the one every engine
  gives. Otherwise the language leaves the order to the engine, and this is one of the
  orders allowed.
\<close>

fun insert_key :: "string \<Rightarrow> string list \<Rightarrow> string list" where
  "insert_key a [] = [a]"
| "insert_key a (b # bs) = (if key_after a b then b # insert_key a bs else a # b # bs)"

definition sort_keys :: "string list \<Rightarrow> string list" where
  "sort_keys ks = foldr insert_key ks []"

text \<open>
  One entry of a page's \<open>annotations\<close>: an object whose first key is the identifier and
  whose value holds the detection. With no key, \<open>idKey\<close> is \<open>undefined\<close> and the read
  \<open>entry[idKey]\<close> looks up the property named \<open>undefined\<close>.
\<close>

definition convert_annotation :: "json \<Rightarrow> json option" where
  "convert_annotation entry = do {
     ks \<leftarrow> object_keys entry;
     let idKey = (case ks of [] \<Rightarrow> JUndefined | k # _ \<Rightarrow> JStr k);
     v \<leftarrow> js_get entry (case ks of [] \<Rightarrow> ''undefined'' | k # _ \<Rightarrow> k);
     c \<leftarrow> js_get v ''category'';
     b \<leftarrow> js_get v ''bbox'';
     a \<leftarrow> js_get v ''area'';
     Some (JObj [(''id'', idKey), (''category'', c), (''bbox'', b),
                 (''confidence'', JNum 0.95), (''area'', a)])
   }"

definition convert_page :: "json \<Rightarrow> nat \<times> string \<Rightarrow> json option" where
  "convert_page fileData = (\<lambda>(idx, pk). do {
     pg \<leftarrow> js_get fileData pk;
     sz \<leftarrow> js_get pg ''page_size'';
     anns \<leftarrow> js_get pg ''annotations'';
     converted \<leftarrow>
       (if truthy anns
        then (case anns of JArr xs \<Rightarrow> those (map convert_annotation xs) | _ \<Rightarrow> None)
        else Some []);
     Some (JObj [(''page_number'', JNum (real (idx + 1))), (''page_size'', sz),
                 (''annotations'', JArr converted)])
   })"

definition convertOldFormat :: "json \<Rightarrow> json option" where
  "convertOldFormat json = do {
     ks \<leftarrow> object_keys json;
     (case ks of
        [] \<Rightarrow> None
      | fileKey # _ \<Rightarrow>
          if fileKey = [] then None
          else do {
            fileData \<leftarrow> js_get json fileKey;
            pks \<leftarrow> object_keys (if truthy fileData then fileData else JObj []);
            let pageKeys = sort_keys pks;
            pgs \<leftarrow> those (map (convert_page fileData) (enumerate 0 pageKeys));
            Some (JObj [(''document_name'', JStr fileKey),
                        (''total_pages'', JNum (real (length pageKeys))),
                        (''pages'', JArr pgs),
                        (''processing_time'', JNum 0)])
          })
   }"

section \<open>The viewer (\<open>PdfViewer\<close>)\<close>

definition categoryColor :: "json \<Rightarrow> string" where
  "categoryColor c =
     (if c = JStr ''qr'' then ''blue''
      else if c = JStr ''signature'' then ''green''
      else ''orange'')"

text \<open>The state \<open>visible\<close>: one flag for each of the keys \<open>qr\<close>, \<open>signature\<close>, \<open>stamp\<close>.\<close>

record visible =
  vis_qr :: bool
  vis_signature :: bool
  vis_stamp :: bool

text \<open>
  \<open>visible[it.category] !== false\<close>. The category is converted to a property key, which
  can throw. A key other than the three flags reads as \<open>undefined\<close>, or as an inherited
  property of the object, and neither is \<open>false\<close>.
\<close>

definition is_visible :: "host \<Rightarrow> visible \<Rightarrow> item \<Rightarrow> bool option" where
  "is_visible h vis it =
     map_option
       (\<lambda>k. if k = ''qr'' then vis_qr vis
            else if k = ''signature'' then vis_signature vis
            else if k = ''stamp'' then vis_stamp vis
            else True)
       (js_to_string h (category it))"

text \<open>\<open>current.items.filter((it) => visible[it.category] !== false)\<close>.\<close>

fun visible_items :: "host \<Rightarrow> visible \<Rightarrow> item list \<Rightarrow> item list option" where
  "visible_items h vis [] = Some []"
| "visible_items h vis (it # its) = do {
     keep \<leftarrow> is_visible h vis it;
     rest \<leftarrow> visible_items h vis its;
     Some (if keep then it # rest else rest)
   }"

text \<open>Optional chaining \<open>v?.k\<close>: \<open>undefined\<close> when \<open>v\<close> is \<open>undefined\<close> or \<open>null\<close>.\<close>

definition opt_get :: "json \<Rightarrow> string \<Rightarrow> json" where
  "opt_get v k = (case js_get v k of None \<Rightarrow> JUndefined | Some x \<Rightarrow> x)"

text \<open>\<open>pages[pageIndex]\<close>: \<open>undefined\<close>, here \<open>None\<close>, outside the list.\<close>

definition current_page :: "page list \<Rightarrow> int \<Rightarrow> page option" where
  "current_page ps i = (if 0 \<le> i \<and> i < int (length ps) then Some (ps ! nat i) else None)"

text \<open>
  The height at which the page is drawn for the container width \<open>cw\<close>. The state
  \<open>renderedHeightState\<close> is never set and stays 0.
\<close>

definition renderedHeight :: "host \<Rightarrow> real \<Rightarrow> page option \<Rightarrow> jsnum option" where
  "renderedHeight h cw current =
     (case current of
        None \<Rightarrow> Some (Num 0)
      | Some p \<Rightarrow>
          let w = opt_get (pageSize p) ''width''; ht = opt_get (pageSize p) ''height'' in
          if cw = 0 \<or> \<not> truthy w \<or> \<not> truthy ht then Some (Num 0)
          else do {
            a \<leftarrow> js_times h (JNum cw) ht;
            y \<leftarrow> to_number h w;
            Some (num_divide h a y)
          })"

definition scaleX :: "host \<Rightarrow> real \<Rightarrow> page option \<Rightarrow> jsnum option" where
  "scaleX h cw current =
     (case current of
        None \<Rightarrow> Some (Num 1)
      | Some p \<Rightarrow>
          let w = opt_get (pageSize p) ''width'' in
          if cw \<noteq> 0 \<and> truthy w then js_divide h (JNum cw) w else Some (Num 1))"

text \<open>
  \<open>scaleY\<close> from the rendered height \<open>rh\<close>. When \<open>rh\<close> is a number that is not
  followed, neither is the scale.
\<close>

definition scaleY :: "host \<Rightarrow> jsnum \<Rightarrow> page option \<Rightarrow> jsnum option" where
  "scaleY h rh current =
     (case current of
        None \<Rightarrow> Some (Num 1)
      | Some p \<Rightarrow>
          let ht = opt_get (pageSize p) ''height'' in
          (case rh of
             Other \<Rightarrow> Some Other
           | Num r \<Rightarrow> if r \<noteq> 0 \<and> truthy ht then js_divide h (JNum r) ht else Some (Num 1)))"

text \<open>The overlay box of an item: each coordinate of its \<open>bbox\<close> times the scale.\<close>

record box =
  box_left :: jsnum
  box_top :: jsnum
  box_width :: jsnum
  box_height :: jsnum

definition scaled :: "host \<Rightarrow> json \<Rightarrow> string \<Rightarrow> jsnum \<Rightarrow> jsnum option" where
  "scaled h b k s = do { v \<leftarrow> js_get b k; n \<leftarrow> to_number h v; Some (num_times h n s) }"

definition overlay_box :: "host \<Rightarrow> jsnum \<Rightarrow> jsnum \<Rightarrow> item \<Rightarrow> box option" where
  "overlay_box h sx sy it = do {
     l \<leftarrow> scaled h (bbox it) ''x'' sx;
     t \<leftarrow> scaled h (bbox it) ''y'' sy;
     w \<leftarrow> scaled h (bbox it) ''width'' sx;
     ht \<leftarrow> scaled h (bbox it) ''height'' sy;
     Some \<lparr>box_left = l, box_top = t, box_width = w, box_height = ht\<rparr>
   }"

text \<open>
  The boxes drawn over the current page for the container width \<open>cw\<close>; \<open>None\<close> when
  rendering throws, as it does when there is no current page.
\<close>

definition overlay :: "host \<Rightarrow> visible \<Rightarrow> real \<Rightarrow> page list \<Rightarrow> int \<Rightarrow> box list option" where
  "overlay h vis cw ps i = do {
     rh \<leftarrow> renderedHeight h cw (current_page ps i);
     sx \<leftarrow> scaleX h cw (current_page ps i);
     sy \<leftarrow> scaleY h rh (current_page ps i);
     p \<leftarrow> current_page ps i;
     shown \<leftarrow> visible_items h vis (items p);
     those (map (overlay_box h sx sy) shown)
   }"


subsection \<open>Navigation\<close>

text \<open>
  The controls that change \<open>pageIndex\<close>: the Prev and Next buttons, the page selector
  (whose event carries the chosen option's value as a string), a click on a cut-out of
  the side bar, and the page buttons.
\<close>

datatype nav = Prev | Next | Select string | Cutout int | PageButton nat

text \<open>
  \<open>pages.indexOf(page)\<close>: the first position, or -1. The source compares objects by
  identity and the model by value; on the pages \<open>parseBackend\<close> makes both agree, since
  each page holds its own position.
\<close>

fun indexOf :: "'a list \<Rightarrow> 'a \<Rightarrow> int" where
  "indexOf [] x = - 1"
| "indexOf (y # ys) x = (if y = x then 0 else let r = indexOf ys x in if r < 0 then r else r + 1)"

text \<open>
  The events the rendered controls can raise at page index \<open>i\<close>: a disabled button raises
  none, the selector offers the positions of the pages, and the side bar shows the pages
  that have items.
\<close>

definition available :: "page list \<Rightarrow> int \<Rightarrow> nav list" where
  "available ps i =
     (if i = 0 then [] else [Prev])
     @ map (\<lambda>k. Select (decimal k)) [0..<length ps]
     @ (if i = int (length ps) - 1 then [] else [Next])
     @ map (\<lambda>p. Cutout (indexOf ps p)) (filter (\<lambda>p. items p \<noteq> []) ps)
     @ map PageButton [0..<length ps]"

text \<open>The handlers: the new page index, \<open>None\<close> when \<open>parseInt\<close> gives NaN.\<close>

fun navigate :: "page list \<Rightarrow> int \<Rightarrow> nav \<Rightarrow> int option" where
  "navigate ps i Prev = Some (max (i - 1) 0)"
| "navigate ps i Next = Some (min (i + 1) (int (length ps) - 1))"
| "navigate ps i (Select v) = parseInt10 v"
| "navigate ps i (Cutout k) = Some k"
| "navigate ps i (PageButton k) = Some (int k)"

text \<open>The page indices that the viewer reaches from its initial index 0.\<close>

inductive reachable :: "page list \<Rightarrow> int \<Rightarrow> bool" for ps :: "page list" where
  initial: "reachable ps 0"
| step: "reachable ps i \<Longrightarrow> ev \<in> set (available ps i) \<Longrightarrow> navigate ps i ev = Some j
         \<Longrightarrow> reachable ps j"

text \<open>The page number handed to the PDF renderer: \<open>pageNumber={pageIndex + 1}\<close>.\<close>

definition pageNumber :: "int \<Rightarrow> int" where
  "pageNumber i = i + 1"

section \<open>URLs of decoded QR codes (\<open>ensureURLProtocol\<close>)\<close>

text \<open>
  A truthy argument that is not a string has no method \<open>startsWith\<close>; the call throws,
  which is \<open>None\<close>.
\<close>

definition ensureURLProtocol :: "json \<Rightarrow> string option" where
  "ensureURLProtocol url =
     (if \<not> truthy url then Some []
      else (case url of
              JStr s \<Rightarrow>
                Some (if prefix ''http://'' s \<or> prefix ''https://'' s then s
                      else ''https://'' @ s)
            | _ \<Rightarrow> None))"

section \<open>The retention ledger\<close>

text \<open>
  The ledger is backend code; only its callers are under src/. The definitions of this
  section follow the specification's sections 3, 4.6, 4.7 and 7. Time is a number of
  seconds.
\<close>

text \<open>
  Modelled from the spec: the ScanRecord (backend model, not under src/), with the fields
  the specification lists.
\<close>

record scan_record =
  scan_id :: nat
  owner_id :: nat
  document_name :: string
  scan_date :: int
  expires_at :: int
  page_count :: nat
  category_counts :: counters
  artifact_reference :: nat

text \<open>
  Modelled from the spec: the caller identity that the authentication collaborator
  supplies (not under src/): anonymous, or a user id with the admin flag.
\<close>

datatype caller = Anonymous | User nat bool

text \<open>
  Modelled from the spec: the ledger's persisted state (backend storage, not under src/):
  the records, and the stored artifacts by reference.
\<close>

record ledger =
  records :: "scan_record list"
  artifacts :: "nat \<rightharpoonup> string"

text \<open>
  Modelled from the spec: the error taxonomy of section 7 (backend code, not under src/).
\<close>

datatype ledger_error =
  UnreadablePdf | InferenceError | PageNotFound | NotFound | RetentionExpired

text \<open>
  Modelled from the spec: the fixed retention window of the backend's policy (not under
  src/), 90 days.
\<close>

definition retention_window :: int where
  "retention_window = 90 * 24 * 60 * 60"

text \<open>
  Modelled from the spec: the ownership rule of the backend's ledger operations (not under
  src/): an admin may see any record, a user only their own.
\<close>

definition may_see :: "caller \<Rightarrow> scan_record \<Rightarrow> bool" where
  "may_see c r = (case c of Anonymous \<Rightarrow> False | User u admin \<Rightarrow> admin \<or> owner_id r = u)"

text \<open>
  Modelled from the spec: whether a record is live at a time (backend code, not under
  src/): it is dead once \<open>expires_at\<close> has passed; the sweep removes the records with
  \<open>expires_at <= now\<close>.
\<close>

definition live :: "int \<Rightarrow> scan_record \<Rightarrow> bool" where
  "live now r = (now < expires_at r)"

text \<open>
  Modelled from the spec: the ledger operation \<open>record\<close> (backend code, not under src/):
  it registers a completed scan of an owner, with \<open>expires_at = scan_date +
  retention_window\<close> and an id that no record has.
\<close>

definition record_scan ::
  "nat \<Rightarrow> string \<Rightarrow> int \<Rightarrow> nat \<Rightarrow> counters \<Rightarrow> nat \<Rightarrow> string \<Rightarrow> ledger \<Rightarrow> scan_record \<times> ledger" where
  "record_scan owner doc now n counts ref pdf l =
     (let r = \<lparr>scan_id = Suc (fold max (map scan_id (records l)) 0), owner_id = owner,
               document_name = doc, scan_date = now, expires_at = now + retention_window,
               page_count = n, category_counts = counts, artifact_reference = ref\<rparr>
      in (r, l\<lparr>records := r # records l, artifacts := (artifacts l)(ref \<mapsto> pdf)\<rparr>))"

text \<open>
  Modelled from the spec: the ledger operation \<open>get\<close>, exposed as \<open>get_scan\<close> (backend
  code, not under src/): the result is \<open>NotFound\<close> alike for a record that does not exist,
  that the caller may not see, and that has expired.
\<close>

definition get_scan :: "caller \<Rightarrow> int \<Rightarrow> nat \<Rightarrow> ledger \<Rightarrow> ledger_error + scan_record" where
  "get_scan c now i l =
     (case find (\<lambda>r. scan_id r = i) (records l) of
        None \<Rightarrow> Inl NotFound
      | Some r \<Rightarrow> if may_see c r \<and> live now r then Inr r else Inl NotFound)"

text \<open>
  Modelled from the spec: the ledger operation \<open>list\<close>, exposed as \<open>list_scans\<close> (backend
  code, not under src/): the caller's own live records, newest first, then the page
  that \<open>skip\<close> and \<open>limit\<close> select.
\<close>

definition list_scans :: "caller \<Rightarrow> int \<Rightarrow> nat \<Rightarrow> nat \<Rightarrow> ledger \<Rightarrow> scan_record list" where
  "list_scans c now skip limit l =
     (case c of
        Anonymous \<Rightarrow> []
      | User u admin \<Rightarrow>
          take limit (drop skip
            (rev (sort_key scan_date
               (filter (\<lambda>r. owner_id r = u \<and> live now r) (records l))))))"

text \<open>
  Modelled from the spec: the ledger operation \<open>delete\<close>, exposed as \<open>delete_scan\<close>
  (backend code, not under src/): under the rule of \<open>get\<close> it removes the ledger row and
  the stored artifact; for a record that \<open>get\<close> does not give, the result is \<open>NotFound\<close>
  and nothing changes.
\<close>

definition delete_scan :: "caller \<Rightarrow> int \<Rightarrow> nat \<Rightarrow> ledger \<Rightarrow> (ledger_error + unit) \<times> ledger" where
  "delete_scan c now i l =
     (case get_scan c now i l of
        Inl e \<Rightarrow> (Inl e, l)
      | Inr r \<Rightarrow>
          (Inr (), l\<lparr>records := filter (\<lambda>r'. scan_id r' \<noteq> i) (records l),
                      artifacts := (artifacts l)(artifact_reference r := None)\<rparr>))"

text \<open>
  Modelled from the spec: one run of the Cleanup Scheduler (backend code, not under
  src/): it removes the records with \<open>expires_at <= now\<close> and their artifacts.
\<close>

definition sweep :: "int \<Rightarrow> ledger \<Rightarrow> ledger" where
  "sweep now l =
     l\<lparr>records := filter (live now) (records l),
       artifacts :=
         (\<lambda>ref. if ref \<in> set (map artifact_reference (filter (\<lambda>r. \<not> live now r) (records l)))
                then None else artifacts l ref)\<rparr>"

text \<open>
  Modelled from the spec: the HTTP reply of the backend's route \<open>DELETE /api/scans/{id}\<close>
  (not under src/): success as status 200, the not-found signal as status 404 with the
  text in \<open>detail\<close>, the field the client reads.
\<close>

definition delete_endpoint :: "caller \<Rightarrow> int \<Rightarrow> nat \<Rightarrow> ledger \<Rightarrow> fetch_result \<times> ledger" where
  "delete_endpoint c now i l =
     (case delete_scan c now i l of
        (Inr u, l') \<Rightarrow> (Response 200 (Inr (JObj [(''message'', JStr ''Scan deleted'')])), l')
      | (Inl e, l') \<Rightarrow> (Response 404 (Inr (JObj [(''detail'', JStr ''Scan not found'')])), l'))"

section \<open>The scan history page (\<open>ApiClient\<close>, \<open>ScanHistory.handleDelete\<close>)\<close>

text \<open>
  \<open>ApiClient.request\<close> on the outcome of its \<open>fetch\<close>: the decoded data, or the message of
  the error it throws; with it the token, which a status 401 clears. A response that is
  not ok throws \<open>new Error(data.detail || 'Request failed')\<close>.
\<close>

definition request :: "host \<Rightarrow> fetch_result \<Rightarrow> string option \<Rightarrow> (string + json) \<times> string option" where
  "request h res token =
     (case res of
        Rejected m \<Rightarrow> (Inl m, token)
      | Response st body \<Rightarrow>
          let token' = (if st = 401 then None else token) in
          (case body of
             Inl m \<Rightarrow> (Inl m, token')
           | Inr data \<Rightarrow>
               if response_ok st then (Inr data, token')
               else (case js_get data ''detail'' of
                       None \<Rightarrow> (Inl (type_error_message h ReadOfNullish), token')
                     | Some detail \<Rightarrow>
                         (case js_to_string h
                                 (if truthy detail then detail else JStr ''Request failed'') of
                            None \<Rightarrow> (Inl (type_error_message h NoPrimitive), token')
                          | Some m \<Rightarrow> (Inl m, token')))))"

text \<open>
  \<open>ApiClient.deleteScan(scanId)\<close>: the request \<open>DELETE /api/scans/${scanId}\<close>, on the
  reply to it.
\<close>

definition deleteScan :: "host \<Rightarrow> fetch_result \<Rightarrow> string option \<Rightarrow> (string + json) \<times> string option" where
  "deleteScan h res token = request h res token"

text \<open>The page's state: the listed scans, the token, and the alerts shown so far.\<close>

record history =
  scans :: "scan_record list"
  token :: "string option"
  alerts :: "string list"

text \<open>
  \<open>handleDelete(scanId)\<close>, given the user's answer to the confirmation and the reply to
  the request that \<open>api.deleteScan\<close> sends. An error thrown by the request is caught and
  shown as an alert.
\<close>

definition handleDelete :: "host \<Rightarrow> bool \<Rightarrow> fetch_result \<Rightarrow> nat \<Rightarrow> history \<Rightarrow> history" where
  "handleDelete h confirmed res scanId st =
     (if \<not> confirmed then st
      else (case deleteScan h res (token st) of
              (Inr data, token') \<Rightarrow>
                st\<lparr>scans := filter (\<lambda>s. scan_id s \<noteq> scanId) (scans st), token := token'\<rparr>
            | (Inl m, token') \<Rightarrow>
                st\<lparr>alerts := alerts st @ [''Failed to delete scan: '' @ m], token := token'\<rparr>))"

text \<open>
  A click on Delete, end to end: the request reaches the ledger through the route, and
  the reply reaches the handler.
\<close>

definition click_delete ::
  "host \<Rightarrow> caller \<Rightarrow> int \<Rightarrow> nat \<Rightarrow> ledger \<times> history \<Rightarrow> ledger \<times> history" where
  "click_delete h c now scanId = (\<lambda>(l, st).
     let (res, l') = delete_endpoint c now scanId l
     in (l', handleDelete h True res scanId st))"

section \<open>Notions used in the statements\<close>

text \<open>The pages of a response and the annotations of one of its pages, as lists.\<close>

definition response_pages :: "json \<Rightarrow> json list" where
  "response_pages j = (case js_get j ''pages'' of Some (JArr ps) \<Rightarrow> ps | _ \<Rightarrow> [])"

definition page_annotations :: "json \<Rightarrow> json list" where
  "page_annotations pg = (case js_get pg ''annotations'' of Some (JArr xs) \<Rightarrow> xs | _ \<Rightarrow> [])"

text \<open>An annotation of a response is a detection of category \<open>c\<close>.\<close>

definition has_category :: "string \<Rightarrow> json \<Rightarrow> bool" where
  "has_category c ann = (js_get ann ''category'' = Some (JStr c))"

text \<open>The number of detections of a category over all pages of a response.\<close>

definition annotation_count :: "string \<Rightarrow> json \<Rightarrow> nat" where
  "annotation_count c j =
     (\<Sum>pg\<leftarrow>response_pages j. length (filter (has_category c) (page_annotations pg)))"

text \<open>The same number over the items of parsed pages.\<close>

definition item_count :: "string \<Rightarrow> page list \<Rightarrow> nat" where
  "item_count c ps = (\<Sum>p\<leftarrow>ps. length (filter (\<lambda>it. category it = JStr c) (items p)))"

text \<open>What one counter of a document contributes: nothing when it has no report.\<close>

definition doc_count :: "(counters \<Rightarrow> nat) \<Rightarrow> document \<Rightarrow> nat" where
  "doc_count f doc = (case results doc of None \<Rightarrow> 0 | Some r \<Rightarrow> f (counters r))"

text \<open>
  The document that the request outcome \<open>r\<close> leaves in place of \<open>doc\<close>: completed with
  its report, or failed with its message.
\<close>

definition settle :: "host \<Rightarrow> fetch_result \<Rightarrow> document \<Rightarrow> document" where
  "settle h r doc =
     (case snd (try_document h r) of
        Inr p \<Rightarrow> doc\<lparr>status := Completed, results := Some p\<rparr>
      | Inl m \<Rightarrow> doc\<lparr>status := Error, doc_error := Some m\<rparr>)"

text \<open>
  The document invariant on a response: \<open>total_pages\<close> is the number of pages, and the
  page at position \<open>i\<close> has \<open>page_number\<close> \<open>i + 1\<close>.
\<close>

definition report_invariant :: "json \<Rightarrow> bool" where
  "report_invariant j =
     (js_get j ''total_pages'' = Some (JNum (real (length (response_pages j)))) \<and>
      map (\<lambda>pg. js_get pg ''page_number'') (response_pages j)
        = map (\<lambda>i. Some (JNum (real (i + 1)))) [0..<length (response_pages j)])"





text \<open>The categories of the closed set.\<close>

definition known_category :: "json \<Rightarrow> bool" where
  "known_category c = (c = JStr ''signature'' \<or> c = JStr ''stamp'' \<or> c = JStr ''qr'')"

text \<open>A confidence is a number between the threshold \<open>t\<close> and 1.\<close>

definition confidence_ok :: "real \<Rightarrow> json \<Rightarrow> bool" where
  "confidence_ok t c = (case c of JNum x \<Rightarrow> 0 \<le> x \<and> x \<le> 1 \<and> t \<le> x | _ \<Rightarrow> False)"

section \<open>Example data\<close>

text \<open>
  A host for the examples. It prints a natural number in decimal, as every engine does
  below \<open>10^21\<close>; the examples print no other number. Its rounding leaves a result as
  it is: the arithmetic of the examples gives values that the arithmetic of doubles
  gives exactly.
\<close>

definition example_host :: host where
  "example_host =
     \<lparr>number_to_string = (\<lambda>x. decimal (nat \<lfloor>x\<rfloor>)),
      type_error_message =
        (\<lambda>e. case e of
               ReadOfNullish \<Rightarrow> ''Cannot read properties of null''
             | NoPrimitive \<Rightarrow> ''Cannot convert object to primitive value''),
      round_double = Num\<rparr>"

definition annotation :: "string \<Rightarrow> string \<Rightarrow> real \<Rightarrow> json" where
  "annotation i c cf =
     JObj [(''id'', JStr i), (''category'', JStr c),
           (''bbox'', JObj [(''x'', JNum 100), (''y'', JNum 200),
                            (''width'', JNum 150), (''height'', JNum 80)]),
           (''confidence'', JNum cf)]"

definition response_page :: "nat \<Rightarrow> json list \<Rightarrow> json" where
  "response_page n anns =
     JObj [(''page_number'', JNum (real n)),
           (''page_size'', JObj [(''width'', JNum 1190), (''height'', JNum 1684)]),
           (''annotations'', JArr anns)]"

definition response :: "string \<Rightarrow> nat \<Rightarrow> json list \<Rightarrow> json" where
  "response doc n pgs =
     JObj [(''document_name'', JStr doc), (''total_pages'', JNum (real n)),
           (''pages'', JArr pgs), (''processing_time'', JNum 2.45)]"

text \<open>A report of three pages: a signature on page 1 and a QR code on page 3.\<close>

definition example_response :: json where
  "example_response =
     response ''example.pdf'' 3
       [response_page 1 [annotation ''detection_1'' ''signature'' 0.95],
        response_page 2 [],
        response_page 3 [annotation ''detection_2'' ''qr'' 0.92]]"

text \<open>What \<open>parseBackend\<close> makes of it.\<close>

definition example_item :: "string \<Rightarrow> string \<Rightarrow> real \<Rightarrow> item" where
  "example_item i c cf =
     \<lparr>item_id = JStr i, category = JStr c,
      bbox = JObj [(''x'', JNum 100), (''y'', JNum 200),
                   (''width'', JNum 150), (''height'', JNum 80)],
      confidence = JNum cf, area = Num 12000\<rparr>"

definition example_page :: "nat \<Rightarrow> string \<Rightarrow> item list \<Rightarrow> page" where
  "example_page idx key its =
     \<lparr>index = idx, pageKey = key,
      pageSize = JObj [(''width'', JNum 1190), (''height'', JNum 1684)], items = its\<rparr>"

definition example_report :: parsed where
  "example_report =
     \<lparr>fileName = JStr ''example.pdf'',
      pages = [example_page 0 ''page_1'' [example_item ''detection_1'' ''signature'' 0.95],
               example_page 1 ''page_2'' [],
               example_page 2 ''page_3'' [example_item ''detection_2'' ''qr'' 0.92]],
      counters = \<lparr>qr = 1, signatures = 1, stamps = 0\<rparr>,
      processingTime = JNum 2.45\<rparr>"

text \<open>
  Two selected files; the backend answers the first request with the report above and
  the second with status 500.
\<close>

definition example_app :: app where
  "example_app =
     \<lparr>files = [\<lparr>name = ''a.pdf'', mime = ''application/pdf''\<rparr>,
               \<lparr>name = ''b.pdf'', mime = ''application/pdf''\<rparr>],
      documents = [], view = Upload, isUploading = False, app_error = None,
      progress = Map.empty\<rparr>"

definition example_net :: "nat \<Rightarrow> fetch_result" where
  "example_net i =
     (if i = 0 then Response 200 (Inr example_response)
      else Response 500 (Inr (JObj [(''detail'', JStr ''Inference failed'')])))"



definition example_documents :: "document list" where
  "example_documents =
     [\<lparr>doc_file = \<lparr>name = ''a.pdf'', mime = ''application/pdf''\<rparr>, status = Completed,
       results = Some example_report, doc_error = None\<rparr>,
      \<lparr>doc_file = \<lparr>name = ''b.pdf'', mime = ''application/pdf''\<rparr>, status = Error,
       results = None, doc_error = Some ''Inference failed''\<rparr>]"

text \<open>
  A response that announces two pages and holds one, numbered 7, and what
  \<open>parseBackend\<close> makes of it.
\<close>

definition mismatched_response :: json where
  "mismatched_response = response ''short.pdf'' 2 [response_page 7 []]"

definition mismatched_report :: parsed where
  "mismatched_report =
     \<lparr>fileName = JStr ''short.pdf'', pages = [example_page 0 ''page_7'' []],
      counters = \<lparr>qr = 0, signatures = 0, stamps = 0\<rparr>, processingTime = JNum 2.45\<rparr>"

text \<open>A document in the old format: two pages, given out of order.\<close>

definition old_annotation :: "string \<Rightarrow> string \<Rightarrow> json" where
  "old_annotation i c =
     JObj [(i, JObj [(''category'', JStr c),
                     (''bbox'', JObj [(''x'', JNum 100), (''y'', JNum 200),
                                      (''width'', JNum 150), (''height'', JNum 80)]),
                     (''area'', JNum 12000)])]"

definition old_page :: "json list \<Rightarrow> json" where
  "old_page anns =
     JObj [(''page_size'', JObj [(''width'', JNum 1190), (''height'', JNum 1684)]),
           (''annotations'', JArr anns)]"

definition old_document :: json where
  "old_document =
     JObj [(''document.pdf'',
            JObj [(''page_2'', old_page []),
                  (''page_1'', old_page [old_annotation ''annotation_1'' ''signature''])])]"

text \<open>What \<open>convertOldFormat\<close> makes of the old document, and \<open>parseBackend\<close> of that.\<close>

definition converted_document :: json where
  "converted_document =
     JObj [(''document_name'', JStr ''document.pdf''), (''total_pages'', JNum 2),
           (''pages'',
            JArr [JObj [(''page_number'', JNum 1),
                        (''page_size'', JObj [(''width'', JNum 1190), (''height'', JNum 1684)]),
                        (''annotations'',
                         JArr [JObj [(''id'', JStr ''annotation_1''),
                                     (''category'', JStr ''signature''),
                                     (''bbox'', JObj [(''x'', JNum 100), (''y'', JNum 200),
                                                      (''width'', JNum 150), (''height'', JNum 80)]),
                                     (''confidence'', JNum 0.95), (''area'', JNum 12000)]])],
                  JObj [(''page_number'', JNum 2),
                        (''page_size'', JObj [(''width'', JNum 1190), (''height'', JNum 1684)]),
                        (''annotations'', JArr [])]]),
           (''processing_time'', JNum 0)]"

definition converted_report :: parsed where
  "converted_report =
     \<lparr>fileName = JStr ''document.pdf'',
      pages = [example_page 0 ''page_1'' [example_item ''annotation_1'' ''signature'' 0.95],
               example_page 1 ''page_2'' []],
      counters = \<lparr>qr = 0, signatures = 1, stamps = 0\<rparr>,
      processingTime = JNum 0\<rparr>"

text \<open>
  A response with a detection of a category outside the closed set, what
  \<open>parseBackend\<close> makes of it, and the viewer's flags with every category shown.
\<close>

definition logo_response :: json where
  "logo_response =
     response ''logo.pdf'' 1 [response_page 1 [annotation ''detection_1'' ''logo'' 0.9]]"

definition logo_report :: parsed where
  "logo_report =
     \<lparr>fileName = JStr ''logo.pdf'',
      pages = [example_page 0 ''page_1'' [example_item ''detection_1'' ''logo'' 0.9]],
      counters = \<lparr>qr = 0, signatures = 0, stamps = 0\<rparr>, processingTime = JNum 2.45\<rparr>"

definition all_visible :: visible where
  "all_visible = \<lparr>vis_qr = True, vis_signature = True, vis_stamp = True\<rparr>"

text \<open>
  A response with a detection below the threshold 0.5 of the app's requests, and what
  \<open>parseBackend\<close> makes of it.
\<close>

definition faint_response :: json where
  "faint_response =
     response ''faint.pdf'' 1 [response_page 1 [annotation ''detection_1'' ''stamp'' 0.2]]"

definition faint_report :: parsed where
  "faint_report =
     \<lparr>fileName = JStr ''faint.pdf'',
      pages = [example_page 0 ''page_1'' [example_item ''detection_1'' ''stamp'' 0.2]],
      counters = \<lparr>qr = 0, signatures = 0, stamps = 1\<rparr>, processingTime = JNum 2.45\<rparr>"






text \<open>
  A ledger at time 1000 with two scans of user 1: scan 1 expired at time 500 and has not
  been swept, scan 2 is live. The history page lists what it loaded while both were
  live.
\<close>

definition example_scan :: "nat \<Rightarrow> int \<Rightarrow> int \<Rightarrow> scan_record" where
  "example_scan i date expiry =
     \<lparr>scan_id = i, owner_id = 1, document_name = ''example.pdf'', scan_date = date,
      expires_at = expiry, page_count = 3,
      category_counts = \<lparr>qr = 1, signatures = 1, stamps = 0\<rparr>, artifact_reference = i\<rparr>"

definition example_ledger :: ledger where
  "example_ledger =
     \<lparr>records = [example_scan 2 900 2000, example_scan 1 100 500],
      artifacts = [1 \<mapsto> ''%PDF-1'', 2 \<mapsto> ''%PDF-2'']\<rparr>"

definition example_history :: history where
  "example_history =
     \<lparr>scans = [example_scan 2 900 2000, example_scan 1 100 500],
      token = Some ''jwt'', alerts = []\<rparr>"

section \<open>Lists of results\<close>

lemma those_map_Some:
  "those (map f xs) = Some ys \<longleftrightarrow> list_all2 (\<lambda>x y. f x = Some y) xs ys"
proof (induction xs arbitrary: ys)
  case Nil
  then show ?case by auto
next
  case (Cons x xs)
  then show ?case
    by (cases ys) (auto split: option.splits)
qed

section \<open>What \<open>parseBackend\<close> keeps of a response\<close>

lemma parse_item_category:
  "parse_item h ann = Some it \<Longrightarrow> js_get ann ''category'' = Some (category it)"
  by (auto simp: parse_item_def split: Option.bind_splits)

lemma parse_item_confidence:
  "parse_item h ann = Some it \<Longrightarrow> js_get ann ''confidence'' = Some (confidence it)"
  by (auto simp: parse_item_def split: Option.bind_splits)

lemma parse_items_all2:
  "parse_items h pg = Some its \<Longrightarrow>
   list_all2 (\<lambda>ann it. parse_item h ann = Some it) (page_annotations pg) its"
  by (auto simp: parse_items_def page_annotations_def those_map_Some
           split: Option.bind_splits if_splits json.splits)

lemma parse_page_items:
  "parse_page h (i, pg) = Some p \<Longrightarrow> parse_items h pg = Some (items p)"
  by (auto simp: parse_page_def split: Option.bind_splits)

lemma parse_page_index:
  "parse_page h (i, pg) = Some p \<Longrightarrow> index p = i"
  by (auto simp: parse_page_def split: Option.bind_splits)

lemma parse_page_pageKey:
  "parse_page h (i, pg) = Some p \<Longrightarrow>
   \<exists>n key. js_get pg ''page_number'' = Some n \<and> js_to_string h n = Some key
     \<and> pageKey p = ''page_'' @ key"
  by (auto simp: parse_page_def split: Option.bind_splits)

lemma parseBackend_pages:
  "parseBackend h j = Some r \<Longrightarrow>
   list_all2 (\<lambda>ipg p. parse_page h ipg = Some p) (enumerate 0 (response_pages j)) (pages r)"
  by (auto simp: parseBackend_def response_pages_def those_map_Some
           split: Option.bind_splits if_splits json.splits)

lemma parseBackend_counters:
  "parseBackend h j = Some r \<Longrightarrow> counters r = count_pages (pages r)"
  by (auto simp: parseBackend_def split: Option.bind_splits if_splits json.splits)

section \<open>The counters\<close>

lemma foldl_count_item:
  "qr (foldl count_item acc its)
     = qr acc + length (filter (\<lambda>it. category it = JStr ''qr'') its)"
  "signatures (foldl count_item acc its)
     = signatures acc + length (filter (\<lambda>it. category it = JStr ''signature'') its)"
  "stamps (foldl count_item acc its)
     = stamps acc + length (filter (\<lambda>it. category it = JStr ''stamp'') its)"
  by (induction its arbitrary: acc; simp add: count_item_def)+

lemma foldl_count_page:
  "qr (foldl count_page acc ps) = qr acc + item_count ''qr'' ps"
  "signatures (foldl count_page acc ps) = signatures acc + item_count ''signature'' ps"
  "stamps (foldl count_page acc ps) = stamps acc + item_count ''stamp'' ps"
  by (induction ps arbitrary: acc; simp add: count_page_def item_count_def foldl_count_item)+

lemma count_pages_item_count:
  "qr (count_pages ps) = item_count ''qr'' ps"
  "signatures (count_pages ps) = item_count ''signature'' ps"
  "stamps (count_pages ps) = item_count ''stamp'' ps"
  by (simp_all add: count_pages_def foldl_count_page)

lemma filter_category_all2:
  "list_all2 (\<lambda>ann it. parse_item h ann = Some it) anns its \<Longrightarrow>
   length (filter (\<lambda>it. category it = JStr c) its) = length (filter (has_category c) anns)"
  by (induction rule: list_all2_induct) (auto simp: has_category_def dest: parse_item_category)

lemma item_count_all2:
  "list_all2 (\<lambda>ipg p. parse_page h ipg = Some p) ipgs ps \<Longrightarrow>
   item_count c ps
     = (\<Sum>pg\<leftarrow>map snd ipgs. length (filter (has_category c) (page_annotations pg)))"
proof (induction rule: list_all2_induct)
  case Nil
  then show ?case by (simp add: item_count_def)
next
  case (Cons ipg ipgs p ps)
  obtain i pg where ipg: "ipg = (i, pg)" by (cases ipg)
  from Cons.hyps(1) ipg have "parse_items h pg = Some (items p)"
    by (simp add: parse_page_items)
  then have "length (filter (\<lambda>it. category it = JStr c) (items p))
      = length (filter (has_category c) (page_annotations pg))"
    by (intro filter_category_all2 parse_items_all2)
  with Cons.IH ipg show ?case by (simp add: item_count_def)
qed

lemma parseBackend_item_count:
  assumes "parseBackend h j = Some r"
  shows "item_count c (pages r) = annotation_count c j"
  using item_count_all2 [OF parseBackend_pages [OF assms], of c]
  by (simp add: annotation_count_def)

section \<open>The loop over the documents\<close>

lemma length_update_at [simp]: "length (update_at i f docs) = length docs"
  by (simp add: update_at_def)

lemma nth_update_at:
  "j < length docs \<Longrightarrow> update_at i f docs ! j = (if j = i then f (docs ! j) else docs ! j)"
  by (simp add: update_at_def nth_enumerate_eq)

lemma documents_analyze_step:
  "documents (analyze_step h net i st) = update_at i (settle h (net i)) (documents st)"
  by (cases "try_document h (net i)")
     (auto simp: analyze_step_def settle_def [abs_def] split: sum.splits)

lemma length_documents_fold:
  "length (documents (fold (analyze_step h net) [0..<k] st)) = length (documents st)"
  by (induction k) (simp_all add: documents_analyze_step)

lemma nth_documents_fold:
  "j < length (documents st) \<Longrightarrow>
   documents (fold (analyze_step h net) [0..<k] st) ! j =
     (if j < k then settle h (net j) (documents st ! j) else documents st ! j)"
proof (induction k arbitrary: j)
  case 0
  then show ?case by simp
next
  case (Suc k)
  then show ?case
    by (simp add: documents_analyze_step nth_update_at length_documents_fold less_Suc_eq)
qed

lemma documents_analyzeMultipleDocuments:
  "files st \<noteq> [] \<Longrightarrow>
   documents (analyzeMultipleDocuments h net st) =
   documents (fold (analyze_step h net) [0..<length (files st)]
     (st\<lparr>isUploading := True, app_error := None,
         documents := initialDocs (files st), view := Results\<rparr>))"
  by (simp add: analyzeMultipleDocuments_def Let_def)

lemma length_analyzed:
  "files st \<noteq> [] \<Longrightarrow>
   length (documents (analyzeMultipleDocuments h net st)) = length (files st)"
  by (simp add: documents_analyzeMultipleDocuments length_documents_fold initialDocs_def)

lemma nth_analyzed:
  assumes "files st \<noteq> []" and "i < length (files st)"
  shows "documents (analyzeMultipleDocuments h net st) ! i =
         settle h (net i) (initialDocs (files st) ! i)"
proof -
  have "i < length (initialDocs (files st))"
    using assms(2) by (simp add: initialDocs_def)
  then show ?thesis
    using assms by (simp add: documents_analyzeMultipleDocuments nth_documents_fold)
qed


lemma settle_results:
  "results doc = None \<Longrightarrow>
   (results (settle h r doc) \<noteq> None) = (status (settle h r doc) = Completed)"
  by (simp add: settle_def split: sum.splits)

lemma analyzed_results_iff_completed:
  assumes "files st \<noteq> []" and "d \<in> set (documents (analyzeMultipleDocuments h net st))"
  shows "(results d \<noteq> None) = (status d = Completed)"
proof -
  from assms obtain i where i: "i < length (files st)"
    and d: "d = documents (analyzeMultipleDocuments h net st) ! i"
    by (auto simp: in_set_conv_nth length_analyzed)
  have "results (initialDocs (files st) ! i) = None"
    using i by (simp add: initialDocs_def)
  then show ?thesis
    unfolding d nth_analyzed [OF assms(1) i] by (rule settle_results)
qed

section \<open>The totals over the documents\<close>

lemma add_document_counts:
  assumes "add_document h doc acc = Some acc'"
  shows "qr acc' = qr acc + doc_count qr doc"
    and "signatures acc' = signatures acc + doc_count signatures doc"
    and "stamps acc' = stamps acc + doc_count stamps doc"
  using assms
  by (auto simp: add_document_def doc_count_def split: option.splits Option.bind_splits)

lemma total_from_counts:
  "total_from h acc docs = Some t \<Longrightarrow>
   qr t = qr acc + (\<Sum>d\<leftarrow>docs. doc_count qr d) \<and>
   signatures t = signatures acc + (\<Sum>d\<leftarrow>docs. doc_count signatures d) \<and>
   stamps t = stamps acc + (\<Sum>d\<leftarrow>docs. doc_count stamps d)"
proof (induction docs arbitrary: acc)
  case Nil
  then show ?case by simp
next
  case (Cons doc docs)
  from Cons.prems obtain acc' where
    add: "add_document h doc acc = Some acc'" and rest: "total_from h acc' docs = Some t"
    by (auto split: option.splits)
  from Cons.IH [OF rest] add_document_counts [OF add]
  show ?case by simp
qed

lemma to_number_returns: "js_to_string h v \<noteq> None \<Longrightarrow> to_number h v \<noteq> None"
  by (cases v) auto

lemma add_document_returns:
  assumes "\<forall>r. results doc = Some r \<longrightarrow> js_to_string h (processingTime r) \<noteq> None"
  shows "add_document h doc acc \<noteq> None"
proof (cases "results doc")
  case None
  then show ?thesis by (simp add: add_document_def)
next
  case (Some r)
  with assms have ok: "js_to_string h (processingTime r) \<noteq> None"
    by simp
  define v where "v = (if truthy (processingTime r) then processingTime r else JNum 0)"
  have "js_plus h (total_time acc) v \<noteq> None"
    using to_number_returns [OF ok]
    by (cases "processingTime r") (auto simp: js_plus_def v_def)
  then obtain t where "js_plus h (total_time acc) v = Some t"
    by auto
  with Some show ?thesis
    by (simp add: add_document_def v_def [symmetric])
qed

lemma total_from_returns:
  "\<forall>d \<in> set docs. \<forall>r. results d = Some r \<longrightarrow> js_to_string h (processingTime r) \<noteq> None
   \<Longrightarrow> total_from h acc docs \<noteq> None"
proof (induction docs arbitrary: acc)
  case Nil
  then show ?case by simp
next
  case (Cons doc docs)
  then have "add_document h doc acc \<noteq> None"
    by (intro add_document_returns) simp
  with Cons show ?case
    by (auto split: option.splits)
qed

lemma sum_completed:
  assumes "\<forall>d \<in> set docs. (results d \<noteq> None) = (status d = Completed)"
  shows "(\<Sum>d\<leftarrow>docs. doc_count f d)
           = (\<Sum>d\<leftarrow>filter (\<lambda>d. status d = Completed) docs. doc_count f d)"
  using assms by (induction docs) (auto simp: doc_count_def)


section \<open>The examples, evaluated\<close>

lemma decimal_digit: "n < 10 \<Longrightarrow> decimal n = [digit_char n]"
  by (simp add: decimal.simps)

lemma parse_example: "parseBackend example_host example_response = Some example_report"
  by (simp add: parseBackend_def example_response_def response_def response_page_def
        annotation_def lookup_or_undefined_def parse_page_def parse_items_def parse_item_def
        js_times_def example_host_def count_pages_def count_page_def count_item_def
        enumerate_eq_zip decimal_digit digit_char_def example_report_def example_page_def
        example_item_def)

lemma analyze_example:
  "documents (analyzeMultipleDocuments example_host example_net example_app) = example_documents"
  by (simp add: analyzeMultipleDocuments_def example_app_def Let_def initialDocs_def
        upt_rec [of 0] upt_rec [of 1] upt_rec [of 2]
        analyze_step_def try_document_def example_net_def parse_example response_ok_def
        backend_error_message_def lookup_or_undefined_def update_at_def enumerate_eq_zip
        example_documents_def)

lemma totals_example:
  "totalStats example_host example_documents =
     Some \<lparr>qr = 1, signatures = 1, stamps = 0, total_pages = 3, total_time = Num 2.45\<rparr>"
  by (simp add: totalStats_def example_documents_def add_document_def example_report_def
        js_plus_def example_host_def)

lemma parseBackend_same_pages:
  assumes "parseBackend h j = Some r" and "parseBackend h j2 = Some r2"
    and "js_get j2 ''pages'' = js_get j ''pages''"
  shows "pages r2 = pages r" and "counters r2 = counters r"
proof -
  from assms show "pages r2 = pages r"
    by (auto simp: parseBackend_def split: Option.bind_splits if_splits json.splits)
  then show "counters r2 = counters r"
    by (simp add: parseBackend_counters [OF assms(1)] parseBackend_counters [OF assms(2)])
qed

section \<open>Counters and totals\<close>

text \<open>
  C1. The counters of a parsed report are the numbers of detections of each category over
  all pages of the response, counted on the annotation lists of its pages; no other field
  of the response enters: two responses with the same pages have the same counters. The
  totals over several documents are the sums of the counters of the documents that have
  a report, and after \<open>analyzeMultipleDocuments\<close> these are the completed documents.
  The totals are computed whenever the processing time of every report converts to a
  primitive value, as every number does.
\<close>

theorem counters_are_computed:
  "(parseBackend h j = Some r \<longrightarrow>
      qr (counters r) = annotation_count ''qr'' j \<and>
      signatures (counters r) = annotation_count ''signature'' j \<and>
      stamps (counters r) = annotation_count ''stamp'' j)
   \<and> (totalStats h docs = Some t \<longrightarrow>
      qr t = (\<Sum>d\<leftarrow>docs. doc_count qr d) \<and>
      signatures t = (\<Sum>d\<leftarrow>docs. doc_count signatures d) \<and>
      stamps t = (\<Sum>d\<leftarrow>docs. doc_count stamps d))
   \<and> (files st \<noteq> [] \<longrightarrow>
      (let done = filter (\<lambda>d. status d = Completed)
                    (documents (analyzeMultipleDocuments h net st))
       in \<forall>t'. totalStats h (documents (analyzeMultipleDocuments h net st)) = Some t' \<longrightarrow>
            qr t' = (\<Sum>d\<leftarrow>done. doc_count qr d) \<and>
            signatures t' = (\<Sum>d\<leftarrow>done. doc_count signatures d) \<and>
            stamps t' = (\<Sum>d\<leftarrow>done. doc_count stamps d)))
   \<and> (parseBackend h j = Some r \<and> parseBackend h j2 = Some r2 \<and>
       js_get j2 ''pages'' = js_get j ''pages'' \<longrightarrow> counters r2 = counters r)
   \<and> ((\<forall>d \<in> set docs. \<forall>r. results d = Some r \<longrightarrow>
          js_to_string h (processingTime r) \<noteq> None) \<longrightarrow>
       totalStats h docs \<noteq> None)"
proof (intro conjI impI)
  assume p: "parseBackend h j = Some r"
  show "qr (counters r) = annotation_count ''qr'' j"
    and "signatures (counters r) = annotation_count ''signature'' j"
    and "stamps (counters r) = annotation_count ''stamp'' j"
    by (simp_all add: parseBackend_counters [OF p] count_pages_item_count
          parseBackend_item_count [OF p])
next
  assume t: "totalStats h docs = Some t"
  from total_from_counts [OF t [unfolded totalStats_def]]
  show "qr t = (\<Sum>d\<leftarrow>docs. doc_count qr d)"
    and "signatures t = (\<Sum>d\<leftarrow>docs. doc_count signatures d)"
    and "stamps t = (\<Sum>d\<leftarrow>docs. doc_count stamps d)"
    by simp_all
next
  assume f: "files st \<noteq> []"
  let ?docs = "documents (analyzeMultipleDocuments h net st)"
  have iff: "\<forall>d \<in> set ?docs. (results d \<noteq> None) = (status d = Completed)"
    using analyzed_results_iff_completed [OF f] by blast
  show "let done = filter (\<lambda>d. status d = Completed) ?docs
        in \<forall>t'. totalStats h ?docs = Some t' \<longrightarrow>
            qr t' = (\<Sum>d\<leftarrow>done. doc_count qr d) \<and>
            signatures t' = (\<Sum>d\<leftarrow>done. doc_count signatures d) \<and>
            stamps t' = (\<Sum>d\<leftarrow>done. doc_count stamps d)"
    unfolding Let_def
  proof (intro allI impI)
    fix t'
    assume t': "totalStats h ?docs = Some t'"
    from total_from_counts [OF t' [unfolded totalStats_def]]
    show "qr t' = (\<Sum>d\<leftarrow>filter (\<lambda>d. status d = Completed) ?docs. doc_count qr d) \<and>
          signatures t' = (\<Sum>d\<leftarrow>filter (\<lambda>d. status d = Completed) ?docs. doc_count signatures d) \<and>
          stamps t' = (\<Sum>d\<leftarrow>filter (\<lambda>d. status d = Completed) ?docs. doc_count stamps d)"
      by (simp add: sum_completed [OF iff, symmetric])
  qed
next
  assume "parseBackend h j = Some r \<and> parseBackend h j2 = Some r2 \<and>
       js_get j2 ''pages'' = js_get j ''pages''"
  then show "counters r2 = counters r"
    using parseBackend_same_pages(2) by blast
next
  assume "\<forall>d \<in> set docs. \<forall>r. results d = Some r \<longrightarrow>
          js_to_string h (processingTime r) \<noteq> None"
  then show "totalStats h docs \<noteq> None"
    unfolding totalStats_def by (rule total_from_returns)
qed

theorem counters_are_computed_witness:
  "parseBackend example_host example_response = Some example_report
   \<and> qr (counters example_report) = annotation_count ''qr'' example_response
   \<and> signatures (counters example_report) = annotation_count ''signature'' example_response
   \<and> stamps (counters example_report) = annotation_count ''stamp'' example_response
   \<and> annotation_count ''qr'' example_response = 1
   \<and> files example_app \<noteq> []
   \<and> totalStats example_host
         (documents (analyzeMultipleDocuments example_host example_net example_app))
       = Some \<lparr>qr = 1, signatures = 1, stamps = 0, total_pages = 3, total_time = Num 2.45\<rparr>
   \<and> (\<Sum>d\<leftarrow>filter (\<lambda>d. status d = Completed)
            (documents (analyzeMultipleDocuments example_host example_net example_app)).
          doc_count qr d) = 1"
proof -
  let ?t = "\<lparr>qr = 1, signatures = 1, stamps = 0, total_pages = 3, total_time = Num 2.45\<rparr>"
  let ?docs = "documents (analyzeMultipleDocuments example_host example_net example_app)"
  note c = counters_are_computed [of example_host example_response example_report
             ?docs ?t example_app example_net]
  have f: "files example_app \<noteq> []"
    by (simp add: example_app_def)
  have t: "totalStats example_host ?docs = Some ?t"
    by (simp add: analyze_example totals_example)
  from c parse_example
  have a: "qr (counters example_report) = annotation_count ''qr'' example_response
     \<and> signatures (counters example_report) = annotation_count ''signature'' example_response
     \<and> stamps (counters example_report) = annotation_count ''stamp'' example_response"
    by blast
  then have b: "annotation_count ''qr'' example_response = 1"
    by (simp add: example_report_def)
  from c f t
  have "qr ?t = (\<Sum>d\<leftarrow>filter (\<lambda>d. status d = Completed) ?docs. doc_count qr d)"
    unfolding Let_def by blast
  then have d: "(\<Sum>d\<leftarrow>filter (\<lambda>d. status d = Completed) ?docs. doc_count qr d) = 1"
    by simp
  from parse_example a b f t d show ?thesis by blast
qed

section \<open>The number and order of the pages\<close>

text \<open>What \<open>convertOldFormat\<close> builds, and what \<open>parseBackend\<close> keeps.\<close>

lemma convert_page_number:
  "convert_page fd (i, pk) = Some pg \<Longrightarrow>
   js_get pg ''page_number'' = Some (JNum (real (i + 1)))"
  by (auto simp: convert_page_def lookup_or_undefined_def split: Option.bind_splits)

lemma convertOldFormat_shape:
  assumes "convertOldFormat j = Some rep"
  shows "\<exists>fk fd ks pgs.
           rep = JObj [(''document_name'', JStr fk), (''total_pages'', JNum (real (length ks))),
                       (''pages'', JArr pgs), (''processing_time'', JNum 0)]
           \<and> list_all2 (\<lambda>ipk pg. convert_page fd ipk = Some pg) (enumerate 0 ks) pgs"
  using assms
  by (auto simp: convertOldFormat_def Let_def those_map_Some
           split: Option.bind_splits list.splits if_splits)

lemma convertOldFormat_invariant:
  assumes "convertOldFormat j = Some rep"
  shows "report_invariant rep"
proof -
  from convertOldFormat_shape [OF assms] obtain fk fd ks pgs where
    rep: "rep = JObj [(''document_name'', JStr fk), (''total_pages'', JNum (real (length ks))),
                      (''pages'', JArr pgs), (''processing_time'', JNum 0)]"
    and all2: "list_all2 (\<lambda>ipk pg. convert_page fd ipk = Some pg) (enumerate 0 ks) pgs"
    by blast
  have pages: "response_pages rep = pgs"
    by (simp add: rep response_pages_def lookup_or_undefined_def)
  have len: "length pgs = length ks"
    using all2 by (simp add: list_all2_lengthD [symmetric])
  have total: "js_get rep ''total_pages'' = Some (JNum (real (length pgs)))"
    by (simp add: rep lookup_or_undefined_def len)
  have "js_get (pgs ! i) ''page_number'' = Some (JNum (real (i + 1)))" if "i < length pgs" for i
  proof -
    from that len have "convert_page fd (enumerate 0 ks ! i) = Some (pgs ! i)"
      using all2 by (simp add: list_all2_conv_all_nth)
    with that len show ?thesis
      by (simp add: nth_enumerate_eq convert_page_number)
  qed
  then have "map (\<lambda>pg. js_get pg ''page_number'') pgs
      = map (\<lambda>i. Some (JNum (real (i + 1)))) [0..<length pgs]"
    by (intro nth_equalityI) simp_all
  with total pages show ?thesis
    by (simp add: report_invariant_def)
qed

lemma parsed_pages_length:
  "parseBackend h j = Some r \<Longrightarrow> length (pages r) = length (response_pages j)"
  by (drule parseBackend_pages) (simp add: list_all2_lengthD [symmetric])

lemma parsed_page_nth:
  assumes "parseBackend h j = Some r" and "i < length (pages r)"
  shows "parse_page h (i, response_pages j ! i) = Some (pages r ! i)"
proof -
  from assms have "i < length (response_pages j)"
    by (simp add: parsed_pages_length)
  with parseBackend_pages [OF assms(1)] show ?thesis
    by (simp add: list_all2_conv_all_nth nth_enumerate_eq)
qed

lemma parsed_index:
  assumes "parseBackend h j = Some r"
  shows "map index (pages r) = [0..<length (pages r)]"
  by (intro nth_equalityI) (simp_all add: parse_page_index [OF parsed_page_nth [OF assms]])

lemma parse_mismatched:
  "parseBackend example_host mismatched_response = Some mismatched_report"
  by (simp add: parseBackend_def mismatched_response_def response_def response_page_def
        lookup_or_undefined_def parse_page_def parse_items_def
        example_host_def count_pages_def count_page_def
        enumerate_eq_zip decimal_digit digit_char_def mismatched_report_def example_page_def)

lemma is_space_simps:
  "is_space c = (c = CHR 0x09 \<or> c = CHR 0x0A \<or> c = CHR 0x0B \<or> c = CHR 0x0C
                 \<or> c = CHR 0x0D \<or> c = CHR '' '' \<or> c = CHR 0xA0)"
  by (cases c) (auto simp: is_space_def)

lemma convert_old_document: "convertOldFormat old_document = Some converted_document"
  by (simp add: convertOldFormat_def old_document_def old_page_def old_annotation_def
        lookup_or_undefined_def sort_keys_def key_after_def page_key_number_def
        parseInt10_def is_space_simps is_digit_def digits_value_def enumerate_eq_zip
        convert_page_def convert_annotation_def converted_document_def Let_def)

lemma parse_converted:
  "parseBackend example_host converted_document = Some converted_report"
  by (simp add: parseBackend_def converted_document_def
        lookup_or_undefined_def parse_page_def parse_items_def parse_item_def
        js_times_def example_host_def count_pages_def count_page_def count_item_def
        enumerate_eq_zip decimal_digit digit_char_def converted_report_def example_page_def
        example_item_def)

lemma invariant_page_number:
  assumes "report_invariant j" and "i < length (response_pages j)"
  shows "js_get (response_pages j ! i) ''page_number'' = Some (JNum (real (i + 1)))"
proof -
  from assms(1) have "map (\<lambda>pg. js_get pg ''page_number'') (response_pages j) ! i
      = map (\<lambda>i. Some (JNum (real (i + 1)))) [0..<length (response_pages j)] ! i"
    by (simp add: report_invariant_def)
  with assms(2) show ?thesis by simp
qed

text \<open>
  C2, as the code has it. A report that \<open>convertOldFormat\<close> produces satisfies the
  document invariant: \<open>total_pages\<close> is the number of its pages and the page at position
  \<open>i\<close> has \<open>page_number\<close> \<open>i + 1\<close>. \<open>parseBackend\<close> checks neither field: the parsed pages
  are the pages of the response in the same order, each with its position as \<open>index\<close>
  and with the \<open>page_number\<close> of the response in its \<open>pageKey\<close>. The number of parsed
  pages equals \<open>total_pages\<close>, and the page keys ascend from \<open>page_1\<close>, when the response
  itself satisfies the invariant.
\<close>

theorem pages_follow_the_response:
  "(convertOldFormat j = Some rep \<longrightarrow> report_invariant rep)
   \<and> (parseBackend h j' = Some r \<longrightarrow>
        length (pages r) = length (response_pages j') \<and>
        map index (pages r) = [0..<length (pages r)] \<and>
        (\<forall>i < length (pages r). \<exists>n key.
            js_get (response_pages j' ! i) ''page_number'' = Some n \<and>
            js_to_string h n = Some key \<and>
            pageKey (pages r ! i) = ''page_'' @ key))
   \<and> (parseBackend h j' = Some r \<and> report_invariant j' \<longrightarrow>
        js_get j' ''total_pages'' = Some (JNum (real (length (pages r)))) \<and>
        (\<forall>i < length (pages r).
            pageKey (pages r ! i) = ''page_'' @ number_to_string h (real (i + 1))))"
proof (intro conjI impI)
  assume "convertOldFormat j = Some rep"
  then show "report_invariant rep"
    by (rule convertOldFormat_invariant)
next
  assume p: "parseBackend h j' = Some r"
  show "length (pages r) = length (response_pages j')"
    by (rule parsed_pages_length [OF p])
  show "map index (pages r) = [0..<length (pages r)]"
    by (rule parsed_index [OF p])
  show "\<forall>i < length (pages r). \<exists>n key.
          js_get (response_pages j' ! i) ''page_number'' = Some n \<and>
          js_to_string h n = Some key \<and>
          pageKey (pages r ! i) = ''page_'' @ key"
    using parse_page_pageKey [OF parsed_page_nth [OF p]] by blast
next
  assume "parseBackend h j' = Some r \<and> report_invariant j'"
  then have p: "parseBackend h j' = Some r" and inv: "report_invariant j'"
    by simp_all
  show "js_get j' ''total_pages'' = Some (JNum (real (length (pages r))))"
    using inv by (simp add: report_invariant_def parsed_pages_length [OF p])
  show "\<forall>i < length (pages r).
          pageKey (pages r ! i) = ''page_'' @ number_to_string h (real (i + 1))"
  proof (intro allI impI)
    fix i
    assume i: "i < length (pages r)"
    then have "js_get (response_pages j' ! i) ''page_number'' = Some (JNum (real (i + 1)))"
      using invariant_page_number [OF inv] by (simp add: parsed_pages_length [OF p])
    with parse_page_pageKey [OF parsed_page_nth [OF p i]]
    show "pageKey (pages r ! i) = ''page_'' @ number_to_string h (real (i + 1))"
      by auto
  qed
qed

theorem pages_follow_the_response_witness:
  "convertOldFormat old_document = Some converted_document
   \<and> parseBackend example_host converted_document = Some converted_report
   \<and> report_invariant converted_document
   \<and> length (pages converted_report) = length (response_pages converted_document)
   \<and> map index (pages converted_report) = [0, 1]
   \<and> js_get converted_document ''total_pages'' = Some (JNum 2)
   \<and> map pageKey (pages converted_report) = [''page_1'', ''page_2'']"
proof -
  note c = pages_follow_the_response [of old_document converted_document example_host
             converted_document converted_report]
  from c convert_old_document have inv: "report_invariant converted_document"
    by blast
  from c parse_converted
  have "length (pages converted_report) = length (response_pages converted_document)"
    by blast
  moreover from c parse_converted inv
  have "js_get converted_document ''total_pages''
          = Some (JNum (real (length (pages converted_report))))"
    by blast
  then have "js_get converted_document ''total_pages'' = Some (JNum 2)"
    by (simp add: converted_report_def)
  moreover have "map index (pages converted_report) = [0, 1]"
    and "map pageKey (pages converted_report) = [''page_1'', ''page_2'']"
    by (simp_all add: converted_report_def example_page_def)
  ultimately show ?thesis
    using convert_old_document parse_converted inv by blast
qed

text \<open>
  The claim as stated fails on \<open>parseBackend\<close>: it accepts a response that announces two
  pages and holds one page numbered 7. The parsed report has one page, at index 0, with
  the key \<open>page_7\<close>.
\<close>

theorem page_count_counterexample:
  "parseBackend example_host mismatched_response = Some mismatched_report
   \<and> js_get mismatched_response ''total_pages'' = Some (JNum 2)
   \<and> length (pages mismatched_report) = 1
   \<and> pageKey (pages mismatched_report ! 0) = ''page_7''
   \<and> \<not> report_invariant mismatched_response"
  by (simp add: parse_mismatched)
     (simp add: mismatched_response_def response_def response_page_def
        lookup_or_undefined_def mismatched_report_def example_page_def report_invariant_def
        response_pages_def)

section \<open>Categories\<close>

text \<open>Where a category goes.\<close>

lemma parsed_items_nth:
  assumes "parseBackend h j = Some r" and "i < length (pages r)"
  shows "list_all2 (\<lambda>ann it. parse_item h ann = Some it)
           (page_annotations (response_pages j ! i)) (items (pages r ! i))"
  by (rule parse_items_all2 [OF parse_page_items [OF parsed_page_nth [OF assms]]])

lemma categories_all2:
  "list_all2 (\<lambda>ann it. parse_item h ann = Some it) anns its \<Longrightarrow>
   map category its = map (\<lambda>a. opt_get a ''category'') anns"
  by (induction rule: list_all2_induct)
     (auto simp: opt_get_def dest: parse_item_category)

lemma known_items_length:
  "length (filter (\<lambda>it. category it = JStr ''qr'') its)
   + length (filter (\<lambda>it. category it = JStr ''signature'') its)
   + length (filter (\<lambda>it. category it = JStr ''stamp'') its)
   = length (filter (\<lambda>it. known_category (category it)) its)"
  by (induction its) (auto simp: known_category_def)

lemma known_item_count:
  "item_count ''qr'' ps + item_count ''signature'' ps + item_count ''stamp'' ps
   = (\<Sum>p\<leftarrow>ps. length (filter (\<lambda>it. known_category (category it)) (items p)))"
proof (induction ps)
  case Nil
  then show ?case by (simp add: item_count_def)
next
  case (Cons p ps)
  from Cons.IH known_items_length [of "items p"] show ?case
    by (simp add: item_count_def)
qed

lemma parse_logo: "parseBackend example_host logo_response = Some logo_report"
  by (simp add: parseBackend_def logo_response_def response_def response_page_def
        annotation_def lookup_or_undefined_def parse_page_def parse_items_def parse_item_def
        js_times_def example_host_def count_pages_def count_page_def count_item_def
        enumerate_eq_zip decimal_digit digit_char_def logo_report_def example_page_def
        example_item_def)

text \<open>
  C3, as the code has it. The frontend rejects no category. \<open>parseBackend\<close> copies the
  category of every annotation into its item, whatever it is, and the counters count the
  items of the three categories only, so a detection of another category is in the
  report and in none of the counters. The viewer colours every category other than
  \<open>qr\<close> and \<open>signature\<close> orange, and shows an item whose category is a string other
  than the three, whatever the flags.
\<close>

theorem categories_are_not_checked:
  "(parseBackend h j = Some r \<longrightarrow>
      (\<forall>i < length (pages r).
          map category (items (pages r ! i))
            = map (\<lambda>a. opt_get a ''category'') (page_annotations (response_pages j ! i))) \<and>
      qr (counters r) + signatures (counters r) + stamps (counters r)
        = (\<Sum>p\<leftarrow>pages r. length (filter (\<lambda>it. known_category (category it)) (items p))))
   \<and> (c \<noteq> JStr ''qr'' \<and> c \<noteq> JStr ''signature'' \<longrightarrow> categoryColor c = ''orange'')
   \<and> (category it = JStr s \<and> \<not> known_category (JStr s) \<longrightarrow> is_visible h vis it = Some True)"
proof (intro conjI impI)
  assume p: "parseBackend h j = Some r"
  show "\<forall>i < length (pages r).
          map category (items (pages r ! i))
            = map (\<lambda>a. opt_get a ''category'') (page_annotations (response_pages j ! i))"
    using categories_all2 [OF parsed_items_nth [OF p]] by blast
  show "qr (counters r) + signatures (counters r) + stamps (counters r)
        = (\<Sum>p\<leftarrow>pages r. length (filter (\<lambda>it. known_category (category it)) (items p)))"
    by (simp add: parseBackend_counters [OF p] count_pages_item_count known_item_count)
next
  assume "c \<noteq> JStr ''qr'' \<and> c \<noteq> JStr ''signature''"
  then show "categoryColor c = ''orange''"
    by (simp add: categoryColor_def)
next
  assume "category it = JStr s \<and> \<not> known_category (JStr s)"
  then show "is_visible h vis it = Some True"
    by (simp add: is_visible_def known_category_def)
qed

theorem categories_are_not_checked_witness:
  "parseBackend example_host logo_response = Some logo_report
   \<and> map category (items (pages logo_report ! 0))
       = map (\<lambda>a. opt_get a ''category'') (page_annotations (response_pages logo_response ! 0))
   \<and> qr (counters logo_report) + signatures (counters logo_report) + stamps (counters logo_report)
       = (\<Sum>p\<leftarrow>pages logo_report.
            length (filter (\<lambda>it. known_category (category it)) (items p)))
   \<and> categoryColor (JStr ''logo'') = ''orange''
   \<and> is_visible example_host all_visible (example_item ''detection_1'' ''logo'' 0.9) = Some True"
proof -
  note c = categories_are_not_checked [of example_host logo_response logo_report
             "JStr ''logo''" "example_item ''detection_1'' ''logo'' 0.9" "''logo''" all_visible]
  have len: "0 < length (pages logo_report)"
    by (simp add: logo_report_def)
  have cat: "category (example_item ''detection_1'' ''logo'' 0.9) = JStr ''logo''
      \<and> \<not> known_category (JStr ''logo'')"
    by (simp add: example_item_def known_category_def)
  have ne: "JStr ''logo'' \<noteq> JStr ''qr'' \<and> JStr ''logo'' \<noteq> JStr ''signature''"
    by simp
  from c parse_logo len cat ne show ?thesis
    by blast
qed

text \<open>
  The claim as stated fails: a detection of category \<open>logo\<close> is accepted, kept in the
  report, counted in no counter, and drawn by the viewer, in orange.
\<close>

theorem unknown_category_counterexample:
  "\<not> known_category (JStr ''logo'')
   \<and> parseBackend example_host logo_response = Some logo_report
   \<and> map category (items (pages logo_report ! 0)) = [JStr ''logo'']
   \<and> counters logo_report = \<lparr>qr = 0, signatures = 0, stamps = 0\<rparr>
   \<and> categoryColor (JStr ''logo'') = ''orange''
   \<and> overlay example_host all_visible 595 (pages logo_report) 0
       = Some [\<lparr>box_left = Num 50, box_top = Num 100, box_width = Num 75, box_height = Num 40\<rparr>]"
  by (simp add: parse_logo)
     (simp add: known_category_def logo_report_def example_page_def example_item_def
        categoryColor_def overlay_def current_page_def renderedHeight_def scaleX_def
        scaleY_def opt_get_def lookup_or_undefined_def js_times_def js_divide_def
        is_visible_def all_visible_def example_host_def overlay_box_def scaled_def)

section \<open>The overlay transform\<close>











section \<open>Confidence\<close>

text \<open>Where a confidence comes from.\<close>

lemma confidences_all2:
  "list_all2 (\<lambda>ann it. parse_item h ann = Some it) anns its \<Longrightarrow>
   map confidence its = map (\<lambda>a. opt_get a ''confidence'') anns"
  by (induction rule: list_all2_induct)
     (auto simp: opt_get_def dest: parse_item_confidence)

lemma parsed_item_source:
  assumes p: "parseBackend h j = Some r"
    and pg: "pg \<in> set (pages r)" and it: "it \<in> set (items pg)"
  shows "\<exists>rp \<in> set (response_pages j). \<exists>a \<in> set (page_annotations rp).
           confidence it = opt_get a ''confidence''"
proof -
  from pg obtain i where i: "i < length (pages r)" and pgi: "pg = pages r ! i"
    by (auto simp: in_set_conv_nth)
  have len: "i < length (response_pages j)"
    using i by (simp add: parsed_pages_length [OF p])
  let ?anns = "page_annotations (response_pages j ! i)"
  have "map confidence (items pg) = map (\<lambda>a. opt_get a ''confidence'') ?anns"
    unfolding pgi by (rule confidences_all2 [OF parsed_items_nth [OF p i]])
  then have "set (map confidence (items pg)) = set (map (\<lambda>a. opt_get a ''confidence'') ?anns)"
    by simp
  with it obtain a where a: "a \<in> set ?anns" and c: "confidence it = opt_get a ''confidence''"
    by auto
  from len have "response_pages j ! i \<in> set (response_pages j)"
    by simp
  with a c show ?thesis
    by blast
qed

lemma convert_annotation_confidence:
  "convert_annotation e = Some a \<Longrightarrow> js_get a ''confidence'' = Some (JNum 0.95)"
  by (auto simp: convert_annotation_def Let_def lookup_or_undefined_def
           split: Option.bind_splits)

lemma all2_in_set:
  "list_all2 P xs ys \<Longrightarrow> y \<in> set ys \<Longrightarrow> \<exists>x \<in> set xs. P x y"
  by (induction rule: list_all2_induct) auto

lemma convert_page_confidence:
  assumes "convert_page fd ipk = Some pg" and "a \<in> set (page_annotations pg)"
  shows "js_get a ''confidence'' = Some (JNum 0.95)"
proof -
  obtain i pk where ipk: "ipk = (i, pk)" by (cases ipk)
  from assms(1) ipk obtain anns converted sz where
    conv: "(if truthy anns
            then (case anns of JArr xs \<Rightarrow> those (map convert_annotation xs) | _ \<Rightarrow> None)
            else Some []) = Some converted"
    and pg: "pg = JObj [(''page_number'', JNum (real (i + 1))), (''page_size'', sz),
                        (''annotations'', JArr converted)]"
    by (auto simp: convert_page_def split: Option.bind_splits)
  have "page_annotations pg = converted"
    by (simp add: pg page_annotations_def lookup_or_undefined_def)
  with assms(2) have a: "a \<in> set converted" by simp
  from conv a obtain e where "convert_annotation e = Some a"
    by (auto simp: those_map_Some split: if_splits json.splits dest: all2_in_set)
  then show ?thesis
    by (rule convert_annotation_confidence)
qed

lemma converted_confidence:
  assumes "convertOldFormat j = Some rep"
    and "pg \<in> set (response_pages rep)" and "a \<in> set (page_annotations pg)"
  shows "js_get a ''confidence'' = Some (JNum 0.95)"
proof -
  from convertOldFormat_shape [OF assms(1)] obtain fk fd ks pgs where
    rep: "rep = JObj [(''document_name'', JStr fk), (''total_pages'', JNum (real (length ks))),
                      (''pages'', JArr pgs), (''processing_time'', JNum 0)]"
    and all2: "list_all2 (\<lambda>ipk pg. convert_page fd ipk = Some pg) (enumerate 0 ks) pgs"
    by blast
  have "response_pages rep = pgs"
    by (simp add: rep response_pages_def lookup_or_undefined_def)
  with assms(2) all2 obtain ipk where "convert_page fd ipk = Some pg"
    by (auto dest: all2_in_set)
  then show ?thesis
    using assms(3) by (rule convert_page_confidence)
qed

lemma parse_faint: "parseBackend example_host faint_response = Some faint_report"
  by (simp add: parseBackend_def faint_response_def response_def response_page_def
        annotation_def lookup_or_undefined_def parse_page_def parse_items_def parse_item_def
        js_times_def example_host_def count_pages_def count_page_def count_item_def
        enumerate_eq_zip decimal_digit digit_char_def faint_report_def example_page_def
        example_item_def)

text \<open>
  C5, as the code has it. \<open>parseBackend\<close> copies the confidence of every annotation into
  its item and checks neither its range nor a threshold; so the items of a parsed report
  have a confidence in \<open>[0, 1]\<close> and at least \<open>t\<close> when the annotations of the response
  have. \<open>convertOldFormat\<close> gives every annotation the confidence 0.95, which is in
  \<open>[0, 1]\<close> and at least 0.5, and the items parsed from its report have it. Whether the
  viewer shows an item does not depend on its confidence.
\<close>

theorem confidence_is_copied:
  "(parseBackend h j = Some r \<longrightarrow>
      (\<forall>i < length (pages r).
          map confidence (items (pages r ! i))
            = map (\<lambda>a. opt_get a ''confidence'') (page_annotations (response_pages j ! i))))
   \<and> (parseBackend h j = Some r \<and>
       (\<forall>pg \<in> set (response_pages j). \<forall>a \<in> set (page_annotations pg).
           confidence_ok t (opt_get a ''confidence'')) \<longrightarrow>
       (\<forall>p \<in> set (pages r). \<forall>it \<in> set (items p). confidence_ok t (confidence it)))
   \<and> (convertOldFormat j0 = Some rep \<and> parseBackend h rep = Some r0 \<longrightarrow>
       (\<forall>p \<in> set (pages r0). \<forall>it \<in> set (items p).
           confidence it = JNum 0.95 \<and> confidence_ok 0.5 (confidence it)))
   \<and> is_visible h vis (it\<lparr>confidence := c\<rparr>) = is_visible h vis it"
proof (intro conjI impI)
  assume p: "parseBackend h j = Some r"
  show "\<forall>i < length (pages r).
          map confidence (items (pages r ! i))
            = map (\<lambda>a. opt_get a ''confidence'') (page_annotations (response_pages j ! i))"
    using confidences_all2 [OF parsed_items_nth [OF p]] by blast
next
  assume "parseBackend h j = Some r \<and>
       (\<forall>pg \<in> set (response_pages j). \<forall>a \<in> set (page_annotations pg).
           confidence_ok t (opt_get a ''confidence''))"
  then have p: "parseBackend h j = Some r"
    and ok: "\<And>pg a. pg \<in> set (response_pages j) \<Longrightarrow> a \<in> set (page_annotations pg)
               \<Longrightarrow> confidence_ok t (opt_get a ''confidence'')"
    by simp_all
  show "\<forall>p \<in> set (pages r). \<forall>it \<in> set (items p). confidence_ok t (confidence it)"
  proof (intro ballI)
    fix pg it
    assume "pg \<in> set (pages r)" and "it \<in> set (items pg)"
    from parsed_item_source [OF p this] ok show "confidence_ok t (confidence it)"
      by auto
  qed
next
  assume "convertOldFormat j0 = Some rep \<and> parseBackend h rep = Some r0"
  then have cv: "convertOldFormat j0 = Some rep" and p: "parseBackend h rep = Some r0"
    by simp_all
  show "\<forall>p \<in> set (pages r0). \<forall>it \<in> set (items p).
           confidence it = JNum 0.95 \<and> confidence_ok 0.5 (confidence it)"
  proof (intro ballI)
    fix pg it
    assume "pg \<in> set (pages r0)" and "it \<in> set (items pg)"
    from parsed_item_source [OF p this] obtain rp a where
      "rp \<in> set (response_pages rep)" and "a \<in> set (page_annotations rp)"
      and c: "confidence it = opt_get a ''confidence''"
      by blast
    from converted_confidence [OF cv this(1,2)] c
    show "confidence it = JNum 0.95 \<and> confidence_ok 0.5 (confidence it)"
      by (simp add: opt_get_def confidence_ok_def)
  qed
next
  show "is_visible h vis (it\<lparr>confidence := c\<rparr>) = is_visible h vis it"
    by (simp add: is_visible_def)
qed

theorem confidence_is_copied_witness:
  "parseBackend example_host example_response = Some example_report
   \<and> list_all (\<lambda>pg. list_all (\<lambda>a. confidence_ok 0.5 (opt_get a ''confidence''))
                      (page_annotations pg)) (response_pages example_response)
   \<and> list_all (\<lambda>p. list_all (\<lambda>it. confidence_ok 0.5 (confidence it)) (items p))
        (pages example_report)
   \<and> convertOldFormat old_document = Some converted_document
   \<and> parseBackend example_host converted_document = Some converted_report
   \<and> list_all (\<lambda>p. list_all (\<lambda>it. confidence it = JNum 0.95) (items p))
        (pages converted_report)
   \<and> 0 < length (pages example_report)
   \<and> map confidence (items (pages example_report ! 0)) = [JNum 0.95]"
proof -
  note c = confidence_is_copied [of example_host example_response example_report "0.5"
             old_document converted_document converted_report]
  have ok: "\<forall>pg \<in> set (response_pages example_response). \<forall>a \<in> set (page_annotations pg).
         confidence_ok 0.5 (opt_get a ''confidence'')"
    by (simp add: example_response_def response_def response_page_def annotation_def
          response_pages_def page_annotations_def lookup_or_undefined_def opt_get_def
          confidence_ok_def)
  from c parse_example ok
  have 1: "\<forall>p \<in> set (pages example_report). \<forall>it \<in> set (items p).
         confidence_ok 0.5 (confidence it)"
    by blast
  from c convert_old_document parse_converted
  have 2: "\<forall>p \<in> set (pages converted_report). \<forall>it \<in> set (items p). confidence it = JNum 0.95"
    by blast
  have 3: "0 < length (pages example_report)"
    and 4: "map confidence (items (pages example_report ! 0)) = [JNum 0.95]"
    by (simp_all add: example_report_def example_page_def example_item_def)
  from parse_example ok 1 convert_old_document parse_converted 2 3 4 show ?thesis
    unfolding list_all_iff by blast
qed

text \<open>
  The claim as stated fails on \<open>parseBackend\<close>: it accepts a response with a detection of
  confidence 0.2, below the threshold 0.5 of the app's requests, and the item is in the
  parsed report with that confidence.
\<close>

theorem low_confidence_counterexample:
  "parseBackend example_host faint_response = Some faint_report
   \<and> map confidence (items (pages faint_report ! 0)) = [JNum 0.2]
   \<and> \<not> confidence_ok 0.5 (JNum 0.2)"
  by (simp add: parse_faint)
     (simp add: faint_report_def example_page_def example_item_def confidence_ok_def)

section \<open>Failures while analysing several documents\<close>

text \<open>The flag and the progress through the loop.\<close>

lemma isUploading_analyzed:
  "files st \<noteq> [] \<Longrightarrow> \<not> isUploading (analyzeMultipleDocuments h net st)"
  by (simp add: analyzeMultipleDocuments_def Let_def)






text \<open>What a turn leaves at its position, by the outcome of the request.\<close>

lemma settle_rejected:
  "settle h (Rejected m) d = d\<lparr>status := Error, doc_error := Some m\<rparr>"
  by (simp add: settle_def try_document_def)

lemma settle_not_ok:
  "\<not> (200 \<le> code \<and> code \<le> 299) \<Longrightarrow>
   settle h (Response code body) d
     = d\<lparr>status := Error, doc_error := Some (backend_error_message h code body)\<rparr>"
  by (simp add: settle_def try_document_def response_ok_def)

lemma settle_undecoded:
  "200 \<le> code \<Longrightarrow> code \<le> 299 \<Longrightarrow>
   settle h (Response code (Inl m)) d = d\<lparr>status := Error, doc_error := Some m\<rparr>"
  by (simp add: settle_def try_document_def response_ok_def)

lemma settle_invalid:
  "200 \<le> code \<Longrightarrow> code \<le> 299 \<Longrightarrow> parseBackend h json = None \<Longrightarrow>
   settle h (Response code (Inr json)) d
     = d\<lparr>status := Error, doc_error := Some ''Invalid response format''\<rparr>"
  by (simp add: settle_def try_document_def response_ok_def)

lemma settle_parsed:
  "200 \<le> code \<Longrightarrow> code \<le> 299 \<Longrightarrow> parseBackend h json = Some p \<Longrightarrow>
   settle h (Response code (Inr json)) d = d\<lparr>status := Completed, results := Some p\<rparr>"
  by (simp add: settle_def try_document_def response_ok_def)












section \<open>The page index of the viewer\<close>

text \<open>Reading back a printed position.\<close>

lemma digit_char_code: "d < 10 \<Longrightarrow> (of_char (digit_char d) :: nat) = 48 + d"
proof -
  assume "d < 10"
  then consider "d = 0" | "d = 1" | "d = 2" | "d = 3" | "d = 4"
    | "d = 5" | "d = 6" | "d = 7" | "d = 8" | "d = 9"
    by atomize_elim arith
  then show ?thesis
    by cases (simp_all add: digit_char_def)
qed

lemma is_digit_digit_char: "d < 10 \<Longrightarrow> is_digit (digit_char d)"
  by (simp add: is_digit_def digit_char_code)

lemma not_space_digit: "is_digit c \<Longrightarrow> \<not> is_space c"
  by (auto simp: is_digit_def is_space_def)

lemma not_sign_digit: "is_digit c \<Longrightarrow> c \<noteq> CHR ''-'' \<and> c \<noteq> CHR ''+''"
  by (auto simp: is_digit_def)

lemma digits_value_snoc:
  "digits_value (ds @ [c]) = 10 * digits_value ds + (of_char c - 48)"
  by (simp add: digits_value_def)

lemma decimal_digits: "decimal n \<noteq> [] \<and> list_all is_digit (decimal n)"
proof (induction n rule: decimal.induct)
  case (1 n)
  show ?case
  proof (cases "n < 10")
    case True
    then show ?thesis
      by (subst (1 2) decimal.simps) (simp add: is_digit_digit_char)
  next
    case False
    with "1" show ?thesis
      by (subst (1 2) decimal.simps) (simp add: is_digit_digit_char)
  qed
qed

lemma digits_value_decimal: "digits_value (decimal n) = n"
proof (induction n rule: decimal.induct)
  case (1 n)
  show ?case
  proof (cases "n < 10")
    case True
    then show ?thesis
      by (subst decimal.simps) (simp add: digits_value_def digit_char_code)
  next
    case False
    with "1" show ?thesis
      by (subst decimal.simps) (simp add: digits_value_snoc digit_char_code)
  qed
qed

lemma parseInt10_decimal: "parseInt10 (decimal n) = Some (int n)"
proof -
  from decimal_digits [of n] obtain c r where s: "decimal n = c # r"
    and c: "is_digit c" and all: "list_all is_digit (c # r)"
    by (cases "decimal n") auto
  have t: "takeWhile is_digit (c # r) = c # r"
    using all by (simp add: list_all_iff)
  have "parseInt10 (c # r) = Some (int (digits_value (c # r)))"
    unfolding parseInt10_def Let_def using not_space_digit [OF c] not_sign_digit [OF c] t
    by simp
  then show ?thesis
    using digits_value_decimal [of n] by (simp add: s)
qed

lemma indexOf_range: "x \<in> set xs \<Longrightarrow> 0 \<le> indexOf xs x \<and> indexOf xs x < int (length xs)"
  by (induction xs) (auto simp: Let_def)

lemma navigate_in_range:
  assumes "ps \<noteq> []" and "0 \<le> i" and "i < int (length ps)"
    and "ev \<in> set (available ps i)"
  shows "\<exists>j. navigate ps i ev = Some j \<and> 0 \<le> j \<and> j < int (length ps)"
proof (cases ev)
  case Prev
  with assms show ?thesis by simp
next
  case Next
  with assms show ?thesis by simp
next
  case (Select v)
  with assms(4) obtain k where "k < length ps" and "v = decimal k"
    by (auto simp: available_def split: if_splits)
  with Select show ?thesis
    by (simp add: parseInt10_decimal)
next
  case (Cutout k)
  with assms(4) obtain p where "p \<in> set ps" and "k = indexOf ps p"
    by (auto simp: available_def split: if_splits)
  with Cutout indexOf_range [of p ps] show ?thesis
    by simp
next
  case (PageButton k)
  with assms(4) have "k < length ps"
    by (auto simp: available_def split: if_splits)
  with PageButton show ?thesis
    by simp
qed

lemma reachable_in_range:
  assumes "ps \<noteq> []" and "reachable ps i"
  shows "0 \<le> i \<and> i < int (length ps)"
  using assms(2)
proof (induction rule: reachable.induct)
  case initial
  from assms(1) show ?case by simp
next
  case (step i ev j)
  with navigate_in_range [OF assms(1), of i ev] show ?case
    by auto
qed

text \<open>
  C9. For a viewer on a list of pages that is not empty, every page index reached from
  the initial index 0 by the controls (Prev, Next, the page selector, the cut-outs of the
  side bar, the page buttons) is a position of the list, so the page number handed to
  the renderer is between 1 and the number of pages; every event that the controls can
  raise there leads to a position of the list again. Prev at the first page and Next at
  the last page leave the index as it is, and the buttons are disabled there.
\<close>

theorem page_index_stays_in_range:
  assumes "ps \<noteq> []" and "reachable ps i"
  shows "0 \<le> i \<and> i \<le> int (length ps) - 1
    \<and> 1 \<le> pageNumber i \<and> pageNumber i \<le> int (length ps)
    \<and> (\<forall>ev \<in> set (available ps i).
          \<exists>j. navigate ps i ev = Some j \<and> 0 \<le> j \<and> j \<le> int (length ps) - 1)
    \<and> navigate ps 0 Prev = Some 0
    \<and> navigate ps (int (length ps) - 1) Next = Some (int (length ps) - 1)
    \<and> Prev \<notin> set (available ps 0)
    \<and> Next \<notin> set (available ps (int (length ps) - 1))"
proof -
  from reachable_in_range [OF assms] have r: "0 \<le> i" "i < int (length ps)"
    by simp_all
  have "\<exists>j. navigate ps i ev = Some j \<and> 0 \<le> j \<and> j \<le> int (length ps) - 1"
    if "ev \<in> set (available ps i)" for ev
    using navigate_in_range [OF assms(1) r that] by auto
  moreover have "Prev \<notin> set (available ps 0)"
    and "Next \<notin> set (available ps (int (length ps) - 1))"
    by (auto simp: available_def)
  moreover from assms(1) have "navigate ps (int (length ps) - 1) Next = Some (int (length ps) - 1)"
    by simp
  ultimately show ?thesis
    using r by (simp add: pageNumber_def)
qed

theorem page_index_stays_in_range_witness:
  "pages example_report \<noteq> []
   \<and> reachable (pages example_report) 2
   \<and> int (length (pages example_report)) - 1 = 2
   \<and> pageNumber 2 = 3
   \<and> navigate (pages example_report) 2 Next = Some 2
   \<and> navigate (pages example_report) 0 Prev = Some 0
   \<and> Prev \<notin> set (available (pages example_report) 0)
   \<and> Next \<notin> set (available (pages example_report) 2)"
proof -
  have ne: "pages example_report \<noteq> []"
    and len: "int (length (pages example_report)) - 1 = 2"
    by (simp_all add: example_report_def)
  have "PageButton 2 \<in> set (available (pages example_report) 0)"
    by (simp add: available_def example_report_def upt_rec [of 0] upt_rec [of 1]
          upt_rec [of 2] upt_rec [of 3])
  from reachable.step [OF reachable.initial this]
  have re: "reachable (pages example_report) 2"
    by simp
  from page_index_stays_in_range [OF ne re] ne re len show ?thesis
    by (simp add: pageNumber_def)
qed

section \<open>URLs with a protocol\<close>

text \<open>
  C10. \<open>ensureURLProtocol\<close> returns a string for every string: the empty string for the
  empty string, the string itself when it starts with \<open>http://\<close> or \<open>https://\<close>, and
  otherwise the string with \<open>https://\<close> in front. For every falsy argument it returns
  the empty string. A result that is not empty starts with \<open>http://\<close> or \<open>https://\<close>, and
  applying the function to its result gives the result again.
\<close>

theorem ensureURLProtocol_idempotent:
  "ensureURLProtocol (JStr s)
     = Some (if s = [] then []
             else if prefix ''http://'' s \<or> prefix ''https://'' s then s
             else ''https://'' @ s)
   \<and> (\<not> truthy v \<longrightarrow> ensureURLProtocol v = Some [])
   \<and> (\<exists>t. ensureURLProtocol (JStr s) = Some t
          \<and> (t = [] \<or> prefix ''http://'' t \<or> prefix ''https://'' t)
          \<and> ensureURLProtocol (JStr t) = Some t)"
  by (auto simp: ensureURLProtocol_def)

theorem ensureURLProtocol_idempotent_witness:
  "ensureURLProtocol (JStr ''example.com'') = Some ''https://example.com''
   \<and> ensureURLProtocol (JStr ''https://example.com'') = Some ''https://example.com''
   \<and> ensureURLProtocol (JStr ''http://example.com'') = Some ''http://example.com''
   \<and> \<not> truthy JNull
   \<and> ensureURLProtocol JNull = Some []
   \<and> ensureURLProtocol (JStr []) = Some []"
  using ensureURLProtocol_idempotent [of "''example.com''" JNull]
    ensureURLProtocol_idempotent [of "''https://example.com''" JNull]
    ensureURLProtocol_idempotent [of "''http://example.com''" JNull]
    ensureURLProtocol_idempotent [of "[]" JNull]
  by simp

section \<open>Deleting a scan twice\<close>

text \<open>Looking a scan up, and deleting it.\<close>

lemma get_scan_error: "get_scan c now i l = Inl e \<Longrightarrow> e = NotFound"
  by (auto simp: get_scan_def split: option.splits if_splits)

lemma find_removed: "find (\<lambda>r. scan_id r = i) (filter (\<lambda>r. scan_id r \<noteq> i) rs) = None"
  by (induction rs) auto

lemma get_scan_later:
  "now \<le> now' \<Longrightarrow> get_scan c now i l = Inl e \<Longrightarrow> get_scan c now' i l = Inl NotFound"
  by (auto simp: get_scan_def live_def split: option.splits if_splits)

lemma delete_scan_found:
  "get_scan c now i l = Inr r \<Longrightarrow>
   delete_scan c now i l
     = (Inr (), l\<lparr>records := filter (\<lambda>r'. scan_id r' \<noteq> i) (records l),
                   artifacts := (artifacts l)(artifact_reference r := None)\<rparr>)"
  by (simp add: delete_scan_def)

lemma delete_scan_missing:
  "get_scan c now i l = Inl e \<Longrightarrow> delete_scan c now i l = (Inl NotFound, l)"
  by (frule get_scan_error) (simp add: delete_scan_def)

lemma get_scan_after_delete:
  "get_scan c' now' i (snd (delete_scan c now i l)) = Inl NotFound" if "now \<le> now'" "c' = c \<or> (\<exists>r. get_scan c now i l = Inr r)"
proof (cases "get_scan c now i l")
  case (Inl e)
  with that have "c' = c" by auto
  with Inl that(1) show ?thesis
    by (simp add: delete_scan_missing get_scan_later)
next
  case (Inr r)
  then show ?thesis
    by (simp add: delete_scan_found get_scan_def find_removed)
qed

lemma delete_twice:
  assumes "now \<le> now'"
  shows "delete_scan c now' i (snd (delete_scan c now i l))
           = (Inl NotFound, snd (delete_scan c now i l))"
  using get_scan_after_delete [OF assms, of c c i l]
  by (simp add: delete_scan_missing)

lemma request_deleted:
  "request h (Response 200 (Inr data)) tok = (Inr data, tok)"
  by (simp add: request_def response_ok_def)

lemma request_not_found:
  "request h (Response 404 (Inr (JObj [(''detail'', JStr ''Scan not found'')]))) tok
     = (Inl ''Scan not found'', tok)"
  by (simp add: request_def response_ok_def lookup_or_undefined_def)

lemma click_delete_found:
  assumes "get_scan c now i l = Inr r"
  shows "click_delete h c now i (l, st)
           = (snd (delete_scan c now i l),
              st\<lparr>scans := filter (\<lambda>s. scan_id s \<noteq> i) (scans st), token := token st\<rparr>)"
  by (simp add: click_delete_def delete_endpoint_def delete_scan_found [OF assms]
        handleDelete_def deleteScan_def request_deleted)

lemma click_delete_missing:
  assumes "get_scan c now i l = Inl e"
  shows "click_delete h c now i (l, st)
           = (l, st\<lparr>alerts := alerts st @ [''Failed to delete scan: Scan not found''],
                    token := token st\<rparr>)"
  by (simp add: click_delete_def delete_endpoint_def delete_scan_missing [OF assms]
        handleDelete_def deleteScan_def request_not_found)

text \<open>
  C6, on the ledger as the specification describes it and the client as the source has
  it. When a caller deletes the same scan twice in a row, the second call gives
  \<open>NotFound\<close> and changes nothing, whatever the first call gave. When the scan was
  reachable for the caller, the first call succeeds and removes the row and the artifact,
  after which nobody reaches the scan. On the history page the first click removes the
  scan from the list and raises no alert; the second click returns as well: the error of
  the not-found reply is caught and shown as an alert, and the list and the ledger stay
  as they were.
\<close>

theorem delete_scan_twice:
  assumes "now \<le> now'"
  shows "delete_scan c now' i (snd (delete_scan c now i l))
           = (Inl NotFound, snd (delete_scan c now i l))
    \<and> (get_scan c now i l = Inr r \<longrightarrow>
         fst (delete_scan c now i l) = Inr ()
         \<and> find (\<lambda>r'. scan_id r' = i) (records (snd (delete_scan c now i l))) = None
         \<and> artifacts (snd (delete_scan c now i l)) (artifact_reference r) = None
         \<and> get_scan c' now' i (snd (delete_scan c now i l)) = Inl NotFound
         \<and> click_delete h c now i (l, st)
             = (snd (delete_scan c now i l),
                st\<lparr>scans := filter (\<lambda>s. scan_id s \<noteq> i) (scans st)\<rparr>)
         \<and> click_delete h c now' i (click_delete h c now i (l, st))
             = (snd (delete_scan c now i l),
                st\<lparr>scans := filter (\<lambda>s. scan_id s \<noteq> i) (scans st),
                   alerts := alerts st @ [''Failed to delete scan: Scan not found'']\<rparr>))"
proof (intro conjI impI)
  show "delete_scan c now' i (snd (delete_scan c now i l))
           = (Inl NotFound, snd (delete_scan c now i l))"
    by (rule delete_twice [OF assms])
next
  assume g: "get_scan c now i l = Inr r"
  show "fst (delete_scan c now i l) = Inr ()"
    and "find (\<lambda>r'. scan_id r' = i) (records (snd (delete_scan c now i l))) = None"
    and "artifacts (snd (delete_scan c now i l)) (artifact_reference r) = None"
    by (simp_all add: delete_scan_found [OF g] find_removed)
  from g show gone: "get_scan c' now' i (snd (delete_scan c now i l)) = Inl NotFound"
    by (intro get_scan_after_delete [OF assms]) blast
  show first: "click_delete h c now i (l, st)
             = (snd (delete_scan c now i l),
                st\<lparr>scans := filter (\<lambda>s. scan_id s \<noteq> i) (scans st)\<rparr>)"
    by (simp add: click_delete_found [OF g])
  have "get_scan c now' i (snd (delete_scan c now i l)) = Inl NotFound"
    by (intro get_scan_after_delete [OF assms]) blast
  from click_delete_missing [OF this]
  show "click_delete h c now' i (click_delete h c now i (l, st))
             = (snd (delete_scan c now i l),
                st\<lparr>scans := filter (\<lambda>s. scan_id s \<noteq> i) (scans st),
                   alerts := alerts st @ [''Failed to delete scan: Scan not found'']\<rparr>)"
    by (simp add: first)
qed

theorem delete_scan_twice_witness:
  "(1000 :: int) \<le> 1001
   \<and> get_scan (User 1 False) 1000 2 example_ledger = Inr (example_scan 2 900 2000)
   \<and> fst (delete_scan (User 1 False) 1000 2 example_ledger) = Inr ()
   \<and> delete_scan (User 1 False) 1001 2 (snd (delete_scan (User 1 False) 1000 2 example_ledger))
       = (Inl NotFound, snd (delete_scan (User 1 False) 1000 2 example_ledger))
   \<and> map scan_id (scans (snd (click_delete example_host (User 1 False) 1000 2
                                 (example_ledger, example_history)))) = [1]
   \<and> alerts (snd (click_delete example_host (User 1 False) 1001 2
                     (click_delete example_host (User 1 False) 1000 2
                        (example_ledger, example_history))))
       = [''Failed to delete scan: Scan not found'']"
proof -
  have le: "(1000 :: int) \<le> 1001"
    by simp
  have g: "get_scan (User 1 False) 1000 2 example_ledger = Inr (example_scan 2 900 2000)"
    by (simp add: get_scan_def example_ledger_def example_scan_def may_see_def live_def)
  note c = delete_scan_twice [OF le, of "User 1 False" 2 example_ledger
             "example_scan 2 900 2000" "User 1 False" example_host example_history]
  from c g have
    1: "fst (delete_scan (User 1 False) 1000 2 example_ledger) = Inr ()"
    and 2: "click_delete example_host (User 1 False) 1000 2 (example_ledger, example_history)
             = (snd (delete_scan (User 1 False) 1000 2 example_ledger),
                example_history\<lparr>scans := filter (\<lambda>s. scan_id s \<noteq> 2) (scans example_history)\<rparr>)"
    and 3: "click_delete example_host (User 1 False) 1001 2
              (click_delete example_host (User 1 False) 1000 2 (example_ledger, example_history))
             = (snd (delete_scan (User 1 False) 1000 2 example_ledger),
                example_history\<lparr>scans := filter (\<lambda>s. scan_id s \<noteq> 2) (scans example_history),
                   alerts := alerts example_history
                     @ [''Failed to delete scan: Scan not found'']\<rparr>)"
    by blast+
  from c have 4: "delete_scan (User 1 False) 1001 2
        (snd (delete_scan (User 1 False) 1000 2 example_ledger))
       = (Inl NotFound, snd (delete_scan (User 1 False) 1000 2 example_ledger))"
    by blast
  have 5: "map scan_id (scans (snd (click_delete example_host (User 1 False) 1000 2
                                 (example_ledger, example_history)))) = [1]"
    unfolding 2 by (simp add: example_history_def example_scan_def)
  have 6: "alerts (snd (click_delete example_host (User 1 False) 1001 2
                     (click_delete example_host (User 1 False) 1000 2
                        (example_ledger, example_history))))
       = [''Failed to delete scan: Scan not found'']"
    unfolding 3 by (simp add: example_history_def)
  from le g 1 4 5 6 show ?thesis
    by blast
qed

section \<open>Expired scans\<close>

text \<open>Reading before and after the sweep.\<close>

lemma find_by_id:
  "distinct (map scan_id rs) \<Longrightarrow> r \<in> set rs \<Longrightarrow>
   find (\<lambda>r'. scan_id r' = scan_id r) rs = Some r"
  by (induction rs) (auto simp: image_iff)

lemma find_filter_by_id:
  "distinct (map scan_id rs) \<Longrightarrow>
   find (\<lambda>r. scan_id r = i) (filter Q rs)
     = (case find (\<lambda>r. scan_id r = i) rs of
          None \<Rightarrow> None
        | Some r \<Rightarrow> if Q r then Some r else None)"
proof (induction rs)
  case Nil
  then show ?case by simp
next
  case (Cons a rs)
  show ?case
  proof (cases "scan_id a = i")
    case True
    with Cons.prems have "\<forall>r \<in> set rs. scan_id r \<noteq> i"
      by (auto simp: image_iff)
    then have "find (\<lambda>r. scan_id r = i) (filter Q rs) = None"
      by (simp add: find_None_iff)
    with True show ?thesis by simp
  next
    case False
    with Cons show ?thesis by simp
  qed
qed

lemma get_scan_sweep:
  assumes "distinct (map scan_id (records l))"
  shows "get_scan c now i (sweep now l) = get_scan c now i l"
  by (auto simp: get_scan_def sweep_def find_filter_by_id [OF assms] split: option.splits)

lemma list_scans_sweep:
  "list_scans c now skip limit (sweep now l) = list_scans c now skip limit l"
  by (cases c) (auto simp: list_scans_def sweep_def conj_commute intro: filter_cong)

lemma list_scans_live:
  "r \<in> set (list_scans c now skip limit l) \<Longrightarrow> live now r"
  by (cases c) (auto simp: list_scans_def dest!: in_set_takeD in_set_dropD)

text \<open>Registering, deleting and sweeping keep the ids of a ledger distinct.\<close>

lemma fold_max_upper: "x \<in> set xs \<Longrightarrow> x \<le> fold max xs (a :: nat)"
proof (induction xs arbitrary: a)
  case Nil
  then show ?case by simp
next
  case (Cons y ys)
  have mono: "b \<le> fold max ys b" for b :: nat
    by (induction ys arbitrary: b) (auto intro: order_trans [OF max.cobounded2])
  from Cons show ?case
    by (auto intro: order_trans [OF max.cobounded1 mono])
qed

lemma record_scan_distinct:
  assumes "distinct (map scan_id (records l))"
  shows "distinct (map scan_id (records (snd (record_scan owner doc now n counts ref pdf l))))"
proof -
  have "Suc (fold max (map scan_id (records l)) 0) \<notin> set (map scan_id (records l))"
    using fold_max_upper [of "Suc (fold max (map scan_id (records l)) 0)"
            "map scan_id (records l)" 0]
    by auto
  with assms show ?thesis
    by (simp add: record_scan_def Let_def)
qed

lemma record_scan_expiry:
  "expires_at (fst (record_scan owner doc now n counts ref pdf l)) = now + retention_window"
  by (simp add: record_scan_def Let_def)

lemma delete_scan_distinct:
  "distinct (map scan_id (records l)) \<Longrightarrow>
   distinct (map scan_id (records (snd (delete_scan c now i l))))"
  by (auto simp: delete_scan_def distinct_map_filter split: sum.splits)

lemma sweep_distinct:
  "distinct (map scan_id (records l)) \<Longrightarrow> distinct (map scan_id (records (sweep now l)))"
  by (simp add: sweep_def distinct_map_filter)

text \<open>
  C7, on the ledger as the specification describes it. A record whose \<open>expires_at\<close> has
  passed is not reachable, swept or not: \<open>get_scan\<close> on its id gives \<open>NotFound\<close>, the
  result for an id that no record has, and no listing holds it. More generally a reader
  sees the same before and after a sweep: \<open>get_scan\<close> and \<open>list_scans\<close> give on the
  ledger what they give on the swept ledger. The ids of the ledger are distinct, as
  they are in every ledger that the operations build.
\<close>

theorem expired_is_unreachable:
  assumes "distinct (map scan_id (records l))"
    and "r \<in> set (records l)" and "expires_at r \<le> now"
  shows "get_scan c now (scan_id r) l = Inl NotFound
    \<and> r \<notin> set (list_scans c now skip limit l)
    \<and> r \<notin> set (records (sweep now l))
    \<and> get_scan c now i l = get_scan c now i (sweep now l)
    \<and> list_scans c now skip limit l = list_scans c now skip limit (sweep now l)"
proof -
  from assms(3) have dead: "\<not> live now r"
    by (simp add: live_def)
  have "get_scan c now (scan_id r) l = Inl NotFound"
    using dead by (simp add: get_scan_def find_by_id [OF assms(1,2)])
  moreover have "r \<notin> set (list_scans c now skip limit l)"
    using dead list_scans_live by blast
  moreover have "r \<notin> set (records (sweep now l))"
    using dead by (simp add: sweep_def)
  ultimately show ?thesis
    by (simp add: get_scan_sweep [OF assms(1)] list_scans_sweep)
qed

theorem expired_is_unreachable_witness:
  "distinct (map scan_id (records example_ledger))
   \<and> example_scan 1 100 500 \<in> set (records example_ledger)
   \<and> expires_at (example_scan 1 100 500) \<le> 1000
   \<and> get_scan (User 1 False) 1000 1 example_ledger = Inl NotFound
   \<and> get_scan (User 1 False) 1000 7 example_ledger = Inl NotFound
   \<and> list_scans (User 1 False) 1000 0 50 example_ledger = [example_scan 2 900 2000]
   \<and> get_scan (User 1 False) 400 1 example_ledger = Inr (example_scan 1 100 500)"
proof -
  have d: "distinct (map scan_id (records example_ledger))"
    and m: "example_scan 1 100 500 \<in> set (records example_ledger)"
    and e: "expires_at (example_scan 1 100 500) \<le> 1000"
    by (simp_all add: example_ledger_def example_scan_def)
  from expired_is_unreachable [OF d m e, of "User 1 False" 0 50 7]
  have "get_scan (User 1 False) 1000 (scan_id (example_scan 1 100 500)) example_ledger
          = Inl NotFound"
    by blast
  then have 1: "get_scan (User 1 False) 1000 1 example_ledger = Inl NotFound"
    by (simp add: example_scan_def)
  have 2: "get_scan (User 1 False) 1000 7 example_ledger = Inl NotFound"
    and 3: "list_scans (User 1 False) 1000 0 50 example_ledger = [example_scan 2 900 2000]"
    and 4: "get_scan (User 1 False) 400 1 example_ledger = Inr (example_scan 1 100 500)"
    by (simp_all add: get_scan_def list_scans_def example_ledger_def example_scan_def
          live_def may_see_def)
  from d m e 1 2 3 4 show ?thesis
    by blast
qed

end
